theory Spec2Isabelle
  imports Main "HOL-Library.AList" "HOL-Library.Sublist"
begin

section \<open>Supergraph to subgraph schema transformation (src/main.ts)\<close>

text \<open>
  The program rewrites a composed GraphQL schema in six stages. The schema objects of
  graphql-js are embedded as records; the AST nodes that carry the directive usages live
  in an explicit store, because the source edits some of them in place and shares them
  between the schema it receives and the schema it returns. Every function takes the
  store and returns the new one. A thrown value is a result \<open>Inl\<close>.
\<close>

subsection \<open>AST nodes and the store\<close>

datatype const_value =
    StringValue string
  | BooleanValue bool
  | EnumValue string
  | IntValue int
  | ListValue "const_value list"
  | NullValue

text \<open>A \<open>ConstArgumentNode\<close>: \<open>name.value\<close> and the literal, which no stage inspects.\<close>

record argument_node =
  arg_name :: string
  arg_value :: const_value

text \<open>
  A \<open>ConstDirectiveNode\<close>. The property \<open>arguments\<close> may be missing, and a JavaScript
  array may hold \<open>undefined\<close> in a slot, so the argument array is a list of options.
\<close>

record directive_node =
  dir_name :: string
  arguments :: "argument_node option list option"

text \<open>
  The AST node of a type definition, of an enum value or of the schema. Only
  \<open>directives\<close> is read or written by the program; the other own properties (kind, name,
  fields, ...) are kept as an opaque list, which an object spread copies.
\<close>

record ast_node =
  props :: "(string \<times> string) list"
  directives :: "directive_node list option"

type_synonym addr = nat
type_synonym store = "ast_node list"

definition deref :: "store \<Rightarrow> addr \<Rightarrow> ast_node option" where
  "deref h p = (if p < length h then Some (h ! p) else None)"

text \<open>Constructing an object literal: the new node gets the next free address.\<close>

definition alloc :: "ast_node \<Rightarrow> store \<Rightarrow> addr \<times> store" where
  "alloc n h = (length h, h @ [n])"

text \<open>\<open>x.astNode?.directives\<close> for a reference \<open>x.astNode\<close> that may be undefined.\<close>

definition astDirectives :: "store \<Rightarrow> addr option \<Rightarrow> directive_node list option" where
  "astDirectives h a =
     (case a of None \<Rightarrow> None
      | Some p \<Rightarrow> (case deref h p of None \<Rightarrow> None | Some n \<Rightarrow> directives n))"

text \<open>\<open>{...x.astNode}\<close>: the own properties of the node, none when it is undefined.\<close>

definition spreadNode :: "store \<Rightarrow> addr option \<Rightarrow> ast_node" where
  "spreadNode h a =
     (case a of None \<Rightarrow> \<lparr>props = [], directives = None\<rparr>
      | Some p \<Rightarrow> (case deref h p of None \<Rightarrow> \<lparr>props = [], directives = None\<rparr> | Some n \<Rightarrow> n))"

subsection \<open>Schema objects\<close>

text \<open>
  Thrown values. \<open>Error msg\<close> is an instance of the JavaScript class Error (TypeError
  included) with that message; \<open>NonError\<close> is any other thrown value.
\<close>

datatype thrown = Error string | NonError string

datatype type_ref = Named string | GraphQLList type_ref | GraphQLNonNull type_ref

record argument_def =
  a_name :: string
  a_type :: type_ref
  a_defaultValue :: "const_value option"

record field_def =
  f_name :: string
  f_type :: type_ref
  f_args :: "argument_def list"

record enum_value =
  ev_name :: string
  ev_astNode :: "addr option"

datatype type_kind = OBJECT | INTERFACE | UNION | ENUM | SCALAR | INPUT_OBJECT

text \<open>
  A named type. References between schema objects are held by name: a field's type, and
  the members of a union (\<open>None\<close> is an \<open>undefined\<close> member). \<open>t_fields\<close> is the field
  map of an object, interface or input object type, \<open>t_types\<close> the members of a union,
  \<open>t_values\<close> the values of an enum; they are empty for the other kinds.
\<close>

record gql_type =
  t_kind :: type_kind
  t_name :: string
  astNode :: "addr option"
  t_fields :: "(string \<times> field_def) list"
  t_types :: "string option list"
  t_values :: "enum_value list"

datatype DirectiveLocation = LOC_OBJECT | LOC_INTERFACE | LOC_FIELD_DEFINITION | LOC_OTHER string

record directive_def =
  d_name :: string
  isRepeatable :: bool
  locations :: "DirectiveLocation list"
  d_args :: "argument_def list"

text \<open>
  A \<open>GraphQLSchema\<close>: the type mapping in insertion order (without the introspection
  types, whose reserved names start with two underscores and which \<open>mapSchema\<close> passes
  over), the directive definitions, the schema's AST node and the root operation types,
  which are entries of the type mapping and are held by name.
\<close>

record schema =
  typeMap :: "(string \<times> gql_type) list"
  s_directives :: "directive_def list"
  s_astNode :: "addr option"
  queryType :: "string option"
  mutationType :: "string option"
  subscriptionType :: "string option"

definition getType :: "schema \<Rightarrow> string \<Rightarrow> gql_type option" where
  "getType s n = map_of (typeMap s) n"

definition getQueryType :: "schema \<Rightarrow> gql_type option" where
  "getQueryType s = (case queryType s of None \<Rightarrow> None | Some q \<Rightarrow> getType s q)"

definition isLeafType :: "gql_type \<Rightarrow> bool" where
  "isLeafType t = (t_kind t = SCALAR \<or> t_kind t = ENUM)"

fun getNamedType :: "type_ref \<Rightarrow> string" where
  "getNamedType (Named n) = n"
| "getNamedType (GraphQLList t) = getNamedType t"
| "getNamedType (GraphQLNonNull t) = getNamedType t"

subsection \<open>The library function mapSchema\<close>

text \<open>
  \<open>mapSchema\<close> of @graphql-tools/utils is not part of the repository; it is embedded
  from its documented behaviour. A mapper returns \<open>undefined\<close> (keep the element),
  \<open>null\<close> (delete it) or a replacement. Mappers of the program read and write the store
  and a list of names, so a mapper is a function of a state; a throw ends the traversal.
  A mapper is handed a type whose \<open>astNode\<close> is the AST node of the type in the schema
  given to \<open>mapSchema\<close>; the copies that the library makes of the schema objects
  themselves are not modelled, and the result keeps the order of the type mapping.
\<close>

datatype 'a mapped = Undefined | Null | Value 'a

type_synonym ('a, 'st) mapper = "'a \<Rightarrow> 'st \<Rightarrow> thrown + ('a mapped \<times> 'st)"

datatype MapperKind =
    MK_TYPE | COMPOSITE_TYPE | OBJECT_TYPE | ROOT_OBJECT | QUERY | MUTATION | SUBSCRIPTION
  | INPUT_OBJECT_TYPE | ABSTRACT_TYPE | INTERFACE_TYPE | UNION_TYPE | ENUM_TYPE | SCALAR_TYPE

record 'st SchemaMapper =
  type_mappers :: "MapperKind \<Rightarrow> (gql_type, 'st) mapper option"
  ENUM_VALUE :: "(enum_value, 'st) mapper option"
  DIRECTIVE :: "(directive_def, 'st) mapper option"

text \<open>A loop over a list that threads the state and stops at the first throw.\<close>

fun forEach :: "('a \<Rightarrow> 'st \<Rightarrow> thrown + ('b \<times> 'st)) \<Rightarrow> 'a list \<Rightarrow> 'st \<Rightarrow> thrown + ('b list \<times> 'st)" where
  "forEach f [] st = Inr ([], st)"
| "forEach f (x # xs) st =
     (case f x st of
        Inl e \<Rightarrow> Inl e
      | Inr (y, st1) \<Rightarrow>
          (case forEach f xs st1 of
             Inl e \<Rightarrow> Inl e
           | Inr (ys, st2) \<Rightarrow> Inr (y # ys, st2)))"

text \<open>The kinds a type answers to, from the most general to the most specific.\<close>

definition getTypeSpecifiers :: "schema \<Rightarrow> string \<Rightarrow> MapperKind list" where
  "getTypeSpecifiers s typeName =
     (case getType s typeName of
        None \<Rightarrow> [MK_TYPE]
      | Some ty \<Rightarrow>
          (case t_kind ty of
             OBJECT \<Rightarrow>
               [MK_TYPE, COMPOSITE_TYPE, OBJECT_TYPE] @
               (if queryType s = Some typeName then [ROOT_OBJECT, QUERY]
                else if mutationType s = Some typeName then [ROOT_OBJECT, MUTATION]
                else if subscriptionType s = Some typeName then [ROOT_OBJECT, SUBSCRIPTION]
                else [])
           | INPUT_OBJECT \<Rightarrow> [MK_TYPE, INPUT_OBJECT_TYPE]
           | INTERFACE \<Rightarrow> [MK_TYPE, COMPOSITE_TYPE, ABSTRACT_TYPE, INTERFACE_TYPE]
           | UNION \<Rightarrow> [MK_TYPE, COMPOSITE_TYPE, ABSTRACT_TYPE, UNION_TYPE]
           | ENUM \<Rightarrow> [MK_TYPE, ENUM_TYPE]
           | SCALAR \<Rightarrow> [MK_TYPE, SCALAR_TYPE]))"

fun firstMapper :: "(MapperKind \<Rightarrow> 'm option) \<Rightarrow> MapperKind list \<Rightarrow> 'm option" where
  "firstMapper m [] = None"
| "firstMapper m (k # ks) = (case m k of Some f \<Rightarrow> Some f | None \<Rightarrow> firstMapper m ks)"

text \<open>The mapper registered for the most specific kind of the type wins.\<close>

definition getTypeMapper ::
  "schema \<Rightarrow> (MapperKind \<Rightarrow> (gql_type, 'st) mapper option) \<Rightarrow> string \<Rightarrow> (gql_type, 'st) mapper option" where
  "getTypeMapper s m typeName = firstMapper m (rev (getTypeSpecifiers s typeName))"

definition applyMapped :: "'a mapped \<Rightarrow> 'a \<Rightarrow> 'a option" where
  "applyMapped r x = (case r of Undefined \<Rightarrow> Some x | Null \<Rightarrow> None | Value y \<Rightarrow> Some y)"

text \<open>
  One entry of the type mapping under construction: an entry already deleted, a type
  that fails the test of the pass, and a type without a mapper are kept as they are.
\<close>

definition mapType ::
  "schema \<Rightarrow> (MapperKind \<Rightarrow> (gql_type, 'st) mapper option) \<Rightarrow> (gql_type \<Rightarrow> bool) \<Rightarrow>
   string \<times> gql_type option \<Rightarrow> 'st \<Rightarrow> thrown + ((string \<times> gql_type option) \<times> 'st)" where
  "mapType s m testFn entry st =
     (case snd entry of
        None \<Rightarrow> Inr (entry, st)
      | Some originalType \<Rightarrow>
          if \<not> testFn originalType then Inr (entry, st)
          else
            (case getTypeMapper s m (fst entry) of
               None \<Rightarrow> Inr (entry, st)
             | Some typeMapper \<Rightarrow>
                 (case typeMapper originalType st of
                    Inl e \<Rightarrow> Inl e
                  | Inr (r, st1) \<Rightarrow> Inr ((fst entry, applyMapped r originalType), st1))))"

definition mapTypes ::
  "schema \<Rightarrow> (MapperKind \<Rightarrow> (gql_type, 'st) mapper option) \<Rightarrow> (gql_type \<Rightarrow> bool) \<Rightarrow>
   (string \<times> gql_type option) list \<Rightarrow> 'st \<Rightarrow> thrown + ((string \<times> gql_type option) list \<times> 'st)" where
  "mapTypes s m testFn tm st = forEach (mapType s m testFn) tm st"

definition mapEnumValue :: "(enum_value, 'st) mapper \<Rightarrow> enum_value \<Rightarrow> 'st \<Rightarrow> thrown + (enum_value option \<times> 'st)" where
  "mapEnumValue f v st =
     (case f v st of Inl e \<Rightarrow> Inl e | Inr (r, st1) \<Rightarrow> Inr (applyMapped r v, st1))"

definition enumTypeMapper :: "(enum_value, 'st) mapper \<Rightarrow> (gql_type, 'st) mapper" where
  "enumTypeMapper f ty st =
     (case forEach (mapEnumValue f) (t_values ty) st of
        Inl e \<Rightarrow> Inl e
      | Inr (vs, st1) \<Rightarrow> Inr (Value (ty\<lparr>t_values := List.map_filter id vs\<rparr>), st1))"

text \<open>With no mapper for enum values the type mapping is returned as it is.\<close>

definition mapEnumValues ::
  "schema \<Rightarrow> 'st SchemaMapper \<Rightarrow> (string \<times> gql_type option) list \<Rightarrow> 'st \<Rightarrow>
   thrown + ((string \<times> gql_type option) list \<times> 'st)" where
  "mapEnumValues s m tm st =
     (case ENUM_VALUE m of
        None \<Rightarrow> Inr (tm, st)
      | Some f \<Rightarrow> mapTypes s (Map.empty(ENUM_TYPE \<mapsto> enumTypeMapper f)) (\<lambda>t. t_kind t = ENUM) tm st)"

definition mapDirective :: "(directive_def, 'st) mapper \<Rightarrow> directive_def \<Rightarrow> 'st \<Rightarrow> thrown + (directive_def option \<times> 'st)" where
  "mapDirective f d st =
     (case f d st of Inl e \<Rightarrow> Inl e | Inr (r, st1) \<Rightarrow> Inr (applyMapped r d, st1))"

definition mapDirectives :: "'st SchemaMapper \<Rightarrow> directive_def list \<Rightarrow> 'st \<Rightarrow> thrown + (directive_def list \<times> 'st)" where
  "mapDirectives m ds st =
     (case DIRECTIVE m of
        None \<Rightarrow> Inr (ds, st)
      | Some f \<Rightarrow>
          (case forEach (mapDirective f) ds st of
             Inl e \<Rightarrow> Inl e
           | Inr (rs, st1) \<Rightarrow> Inr (List.map_filter id rs, st1)))"

text \<open>
  Rewiring: the deleted entries leave the type mapping, and a reference to a deleted
  type is dropped with the field, argument or union member that holds it. The entries
  keep their keys and their order (no mapper of this program renames a type). An
  undefined union member exists only in the union that \<open>normalizeSchema\<close> builds after
  its last call of \<open>mapSchema\<close>; the rewiring leaves such a slot in place.
\<close>

definition rewireArgs :: "string list \<Rightarrow> argument_def list \<Rightarrow> argument_def list" where
  "rewireArgs removed as = filter (\<lambda>a. getNamedType (a_type a) \<notin> set removed) as"

definition rewireFields :: "string list \<Rightarrow> (string \<times> field_def) list \<Rightarrow> (string \<times> field_def) list" where
  "rewireFields removed fs =
     map (\<lambda>(n, f). (n, f\<lparr>f_args := rewireArgs removed (f_args f)\<rparr>))
       (filter (\<lambda>(n, f). getNamedType (f_type f) \<notin> set removed) fs)"

definition rewireMembers :: "string list \<Rightarrow> string option list \<Rightarrow> string option list" where
  "rewireMembers removed ms =
     filter (\<lambda>m. case m of None \<Rightarrow> True | Some n \<Rightarrow> n \<notin> set removed) ms"

definition rewireNamedType :: "string list \<Rightarrow> gql_type \<Rightarrow> gql_type" where
  "rewireNamedType removed ty =
     (case t_kind ty of
        OBJECT \<Rightarrow> ty\<lparr>t_fields := rewireFields removed (t_fields ty)\<rparr>
      | INTERFACE \<Rightarrow> ty\<lparr>t_fields := rewireFields removed (t_fields ty)\<rparr>
      | INPUT_OBJECT \<Rightarrow> ty\<lparr>t_fields := rewireFields removed (t_fields ty)\<rparr>
      | UNION \<Rightarrow> ty\<lparr>t_types := rewireMembers removed (t_types ty)\<rparr>
      | ENUM \<Rightarrow> ty
      | SCALAR \<Rightarrow> ty)"

definition removedNames :: "(string \<times> gql_type option) list \<Rightarrow> string list" where
  "removedNames tm = map fst (filter (\<lambda>e. snd e = None) tm)"

definition rewireTypes ::
  "(string \<times> gql_type option) list \<Rightarrow> directive_def list \<Rightarrow> (string \<times> gql_type) list \<times> directive_def list" where
  "rewireTypes tm ds =
     (List.map_filter (\<lambda>e. map_option (\<lambda>ty. (fst e, rewireNamedType (removedNames tm) ty)) (snd e)) tm,
      map (\<lambda>d. d\<lparr>d_args := rewireArgs (removedNames tm) (d_args d)\<rparr>) ds)"

text \<open>A root operation type survives when its name still leads to an object type.\<close>

definition getObjectTypeFromTypeMap :: "(string \<times> gql_type) list \<Rightarrow> string option \<Rightarrow> string option" where
  "getObjectTypeFromTypeMap tm root =
     (case root of
        None \<Rightarrow> None
      | Some n \<Rightarrow>
          (case map_of tm n of
             None \<Rightarrow> None
           | Some ty \<Rightarrow> if t_kind ty = OBJECT then Some n else None))"

text \<open>
  The passes of \<open>mapSchema\<close> in the library's order: leaf types, enum values, the
  other types, directive definitions, then rewiring and the new schema object.
\<close>

definition mapSchema :: "schema \<Rightarrow> 'st SchemaMapper \<Rightarrow> 'st \<Rightarrow> thrown + (schema \<times> 'st)" where
  "mapSchema s m st =
     (case mapTypes s (type_mappers m) isLeafType (map (\<lambda>(k, ty). (k, Some ty)) (typeMap s)) st of
        Inl e \<Rightarrow> Inl e
      | Inr (tm1, st1) \<Rightarrow>
     (case mapEnumValues s m tm1 st1 of
        Inl e \<Rightarrow> Inl e
      | Inr (tm2, st2) \<Rightarrow>
     (case mapTypes s (type_mappers m) (\<lambda>t. \<not> isLeafType t) tm2 st2 of
        Inl e \<Rightarrow> Inl e
      | Inr (tm3, st3) \<Rightarrow>
     (case mapDirectives m (s_directives s) st3 of
        Inl e \<Rightarrow> Inl e
      | Inr (ds, st4) \<Rightarrow>
          Inr (s\<lparr>typeMap := fst (rewireTypes tm3 ds),
                 s_directives := snd (rewireTypes tm3 ds),
                 queryType := getObjectTypeFromTypeMap (fst (rewireTypes tm3 ds)) (queryType s),
                 mutationType := getObjectTypeFromTypeMap (fst (rewireTypes tm3 ds)) (mutationType s),
                 subscriptionType := getObjectTypeFromTypeMap (fst (rewireTypes tm3 ds)) (subscriptionType s)\<rparr>,
               st4)))))"

subsection \<open>Classifying entities (addFederationDirectives)\<close>

definition startsWith :: "string \<Rightarrow> string \<Rightarrow> bool" where
  "startsWith s p = prefix p s"

definition findJoinDirective :: "gql_type \<Rightarrow> store \<Rightarrow> directive_node option" where
  "findJoinDirective type h =
     (case astDirectives h (astNode type) of
        None \<Rightarrow> None
      | Some ds \<Rightarrow> find (\<lambda>directive. dir_name directive = ''join__type'') ds)"

text \<open>
  \<open>new Map(args.map(arg => [arg.name.value, arg]))\<close>: a later entry with the same name
  wins; reading \<open>name\<close> of an undefined slot throws a TypeError.
\<close>

definition argumentMap :: "argument_node option list \<Rightarrow> thrown + (string \<rightharpoonup> argument_node)" where
  "argumentMap as =
     (case those as of
        None \<Rightarrow> Inl (Error ''Cannot read properties of undefined (reading name)'')
      | Some xs \<Rightarrow> Inr (map_of (rev (map (\<lambda>arg. (arg_name arg, arg)) xs))))"

definition generateFederationDirective :: "(string \<rightharpoonup> argument_node) \<Rightarrow> directive_node" where
  "generateFederationDirective joinTypeArguments =
     (if joinTypeArguments ''key'' \<noteq> None
      then \<lparr>dir_name = ''key'',
            arguments = Some [joinTypeArguments ''key'', joinTypeArguments ''resolvable'']\<rparr>
      else \<lparr>dir_name = ''shareable'', arguments = None\<rparr>)"

text \<open>
  The mapper for object types. Its state is the store and the array \<open>entityNames\<close> it
  pushes to. The new type has a new AST node: the spread of the old one with the
  directive list extended.
\<close>

definition objectTypeMapper :: "(gql_type, store \<times> string list) mapper" where
  "objectTypeMapper type st =
     (case findJoinDirective type (fst st) of
        None \<Rightarrow> Inr (Undefined, st)
      | Some joinTypeDirective \<Rightarrow>
          (case argumentMap (case arguments joinTypeDirective of None \<Rightarrow> [] | Some as \<Rightarrow> as) of
             Inl e \<Rightarrow> Inl e
           | Inr joinTypeArguments \<Rightarrow>
               (case astDirectives (fst st) (astNode type) of
                  None \<Rightarrow> Inl (Error ''type.astNode.directives is not iterable'')
                | Some ds \<Rightarrow>
                    Inr (Value (type\<lparr>astNode :=
                                  Some (fst (alloc ((spreadNode (fst st) (astNode type))
                                    \<lparr>directives := Some (ds @ [generateFederationDirective joinTypeArguments])\<rparr>)
                                  (fst st)))\<rparr>),
                         (snd (alloc ((spreadNode (fst st) (astNode type))
                                 \<lparr>directives := Some (ds @ [generateFederationDirective joinTypeArguments])\<rparr>)
                               (fst st)),
                          if dir_name (generateFederationDirective joinTypeArguments) = ''key''
                          then snd st @ [t_name type] else snd st)))))"

definition addFederationDirectives :: "schema \<Rightarrow> store \<Rightarrow> thrown + ((schema \<times> string list) \<times> store)" where
  "addFederationDirectives s h =
     (case mapSchema s
             \<lparr>type_mappers = Map.empty(OBJECT_TYPE \<mapsto> objectTypeMapper),
              ENUM_VALUE = None, DIRECTIVE = None\<rparr>
             (h, []) of
        Inl e \<Rightarrow> Inl e
      | Inr (transformedSchema, (h', entityNames)) \<Rightarrow> Inr ((transformedSchema, entityNames), h'))"

subsection \<open>Stripping join directives (removeJoinDirectivesUsages)\<close>

text \<open>
  \<open>removeJoinDirectives\<close> receives a type or an enum value configuration and assigns to
  \<open>astNode.directives\<close> of the node it is given: the node in the store changes.
\<close>

definition removeJoinDirectives :: "addr option \<Rightarrow> store \<Rightarrow> store" where
  "removeJoinDirectives a h =
     (case a of
        None \<Rightarrow> h
      | Some p \<Rightarrow>
          (case deref h p of
             None \<Rightarrow> h
           | Some n \<Rightarrow>
               (case directives n of
                  None \<Rightarrow> h
                | Some ds \<Rightarrow>
                    h[p := n\<lparr>directives :=
                               Some (filter (\<lambda>directive. \<not> startsWith (dir_name directive) ''join__'') ds)\<rparr>])))"

definition removeJoinDirectivesUsages :: "schema \<Rightarrow> store \<Rightarrow> thrown + (schema \<times> store)" where
  "removeJoinDirectivesUsages s h =
     mapSchema s
       \<lparr>type_mappers = Map.empty(MK_TYPE \<mapsto> (\<lambda>type h. Inr (Undefined, removeJoinDirectives (astNode type) h))),
        ENUM_VALUE = Some (\<lambda>valueConfig h. Inr (Undefined, removeJoinDirectives (ev_astNode valueConfig) h)),
        DIRECTIVE = None\<rparr>
       h"

subsection \<open>Root types and join types\<close>

definition rootObjectMapper :: "(gql_type, store) mapper" where
  "rootObjectMapper type h =
     Inr (Value (type\<lparr>astNode := Some (fst (alloc ((spreadNode h (astNode type))\<lparr>directives := Some []\<rparr>) h))\<rparr>),
          snd (alloc ((spreadNode h (astNode type))\<lparr>directives := Some []\<rparr>) h))"

definition removeFederationDirectivesFromRootObjects :: "schema \<Rightarrow> store \<Rightarrow> thrown + (schema \<times> store)" where
  "removeFederationDirectivesFromRootObjects s h =
     mapSchema s
       \<lparr>type_mappers = Map.empty(ROOT_OBJECT \<mapsto> rootObjectMapper),
        ENUM_VALUE = None, DIRECTIVE = None\<rparr>
       h"

definition removeJoinTypes :: "schema \<Rightarrow> store \<Rightarrow> thrown + (schema \<times> store)" where
  "removeJoinTypes s h =
     mapSchema s
       \<lparr>type_mappers =
          Map.empty(ENUM_TYPE \<mapsto> (\<lambda>type h. Inr (if startsWith (t_name type) ''join__'' then Null else Undefined, h)),
                    SCALAR_TYPE \<mapsto> (\<lambda>type h. Inr (if startsWith (t_name type) ''join__'' then Null else Undefined, h))),
        ENUM_VALUE = None,
        DIRECTIVE = Some (\<lambda>directive h. Inr (if startsWith (d_name directive) ''join__'' then Null else Value directive, h))\<rparr>
       h"

subsection \<open>Federation scaffolding (normalizeSchema)\<close>

definition GraphQLScalarType :: "string \<Rightarrow> gql_type" where
  "GraphQLScalarType n =
     \<lparr>t_kind = SCALAR, t_name = n, astNode = None, t_fields = [], t_types = [], t_values = []\<rparr>"

definition GraphQLUnionType :: "string \<Rightarrow> string option list \<Rightarrow> gql_type" where
  "GraphQLUnionType n members =
     \<lparr>t_kind = UNION, t_name = n, astNode = None, t_fields = [], t_types = members, t_values = []\<rparr>"

text \<open>\<open>schema.getTypeMap()[n] = ty\<close>: an existing key keeps its place, a new one is appended.\<close>

definition setType :: "schema \<Rightarrow> string \<Rightarrow> gql_type \<Rightarrow> schema" where
  "setType s n ty = s\<lparr>typeMap := AList.update n ty (typeMap s)\<rparr>"

definition linkDirective :: directive_node where
  "linkDirective =
     \<lparr>dir_name = ''link'',
      arguments = Some [Some \<lparr>arg_name = ''url'',
                             arg_value = StringValue ''https://specs.apollo.dev/federation/v2.5''\<rparr>]\<rparr>"

text \<open>\<open>schema.astNode = {...schema.astNode, directives: [link]}\<close>: a new node.\<close>

definition setFederationSchemaDirective :: "schema \<Rightarrow> store \<Rightarrow> schema \<times> store" where
  "setFederationSchemaDirective s h =
     (s\<lparr>s_astNode :=
          Some (fst (alloc ((spreadNode h (s_astNode s))\<lparr>directives := Some [linkDirective]\<rparr>) h))\<rparr>,
      snd (alloc ((spreadNode h (s_astNode s))\<lparr>directives := Some [linkDirective]\<rparr>) h))"

definition entitiesField :: "gql_type \<Rightarrow> gql_type \<Rightarrow> field_def" where
  "entitiesField entityUnion anyScalar =
     \<lparr>f_name = ''_entities'',
      f_type = GraphQLNonNull (GraphQLList (Named (t_name entityUnion))),
      f_args = [\<lparr>a_name = ''representations'',
                 a_type = GraphQLNonNull (GraphQLList (GraphQLNonNull (Named (t_name anyScalar)))),
                 a_defaultValue = None\<rparr>]\<rparr>"

text \<open>
  \<open>resultSchema.getQueryType().getFields()._entities = ...\<close>: without a query type the
  call on undefined throws a TypeError.
\<close>

definition addEntitiesQueryToSchema :: "schema \<Rightarrow> gql_type \<Rightarrow> gql_type \<Rightarrow> thrown + schema" where
  "addEntitiesQueryToSchema resultSchema entityUnion anyScalar =
     (case queryType resultSchema of
        None \<Rightarrow> Inl (Error ''Cannot read properties of undefined (reading getFields)'')
      | Some q \<Rightarrow>
          (case getType resultSchema q of
             None \<Rightarrow> Inl (Error ''Cannot read properties of undefined (reading getFields)'')
           | Some query \<Rightarrow>
               Inr (setType resultSchema q
                      (query\<lparr>t_fields :=
                               AList.update ''_entities'' (entitiesField entityUnion anyScalar) (t_fields query)\<rparr>))))"

definition addFederationDirectivesToSchema :: "schema \<Rightarrow> gql_type \<Rightarrow> schema" where
  "addFederationDirectivesToSchema resultSchema fieldSetScalar =
     resultSchema\<lparr>s_directives := s_directives resultSchema @
       [\<lparr>d_name = ''key'', isRepeatable = True, locations = [LOC_OBJECT, LOC_INTERFACE],
         d_args = [\<lparr>a_name = ''fields'', a_type = GraphQLNonNull (Named (t_name fieldSetScalar)),
                     a_defaultValue = None\<rparr>,
                   \<lparr>a_name = ''resolvable'', a_type = Named ''Boolean'',
                     a_defaultValue = Some (BooleanValue True)\<rparr>]\<rparr>,
        \<lparr>d_name = ''shareable'', isRepeatable = True,
         locations = [LOC_OBJECT, LOC_FIELD_DEFINITION], d_args = []\<rparr>]\<rparr>"

text \<open>The members of \<open>_Entity\<close>: each recorded name resolved in the result schema.\<close>

definition entityUnionOf :: "schema \<Rightarrow> string list \<Rightarrow> gql_type" where
  "entityUnionOf resultSchema entityNames =
     GraphQLUnionType ''_Entity'' (map (\<lambda>n. map_option t_name (getType resultSchema n)) entityNames)"

definition normalizeSchema :: "schema \<Rightarrow> store \<Rightarrow> thrown + (schema \<times> store)" where
  "normalizeSchema s h =
     (case addFederationDirectives (fst (setFederationSchemaDirective s h))
             (snd (setFederationSchemaDirective s h)) of
        Inl e \<Rightarrow> Inl e
      | Inr ((schemaWithFederationDirectives, entityNames), h2) \<Rightarrow>
     (case removeJoinDirectivesUsages schemaWithFederationDirectives h2 of
        Inl e \<Rightarrow> Inl e
      | Inr (schemaWithoutJoinDirectives, h3) \<Rightarrow>
     (case removeFederationDirectivesFromRootObjects schemaWithoutJoinDirectives h3 of
        Inl e \<Rightarrow> Inl e
      | Inr (schemaWithoutRootFedDirectives, h4) \<Rightarrow>
     (case removeJoinTypes schemaWithoutRootFedDirectives h4 of
        Inl e \<Rightarrow> Inl e
      | Inr (resultSchema, h5) \<Rightarrow>
     (case addEntitiesQueryToSchema
             (setType (setType (setType resultSchema ''_Any'' (GraphQLScalarType ''_Any''))
                         ''FieldSet'' (GraphQLScalarType ''FieldSet''))
                ''_Entity'' (entityUnionOf resultSchema entityNames))
             (entityUnionOf resultSchema entityNames) (GraphQLScalarType ''_Any'') of
        Inl e \<Rightarrow> Inl e
      | Inr withEntities \<Rightarrow>
          Inr (addFederationDirectivesToSchema withEntities (GraphQLScalarType ''FieldSet''), h5))))))"

subsection \<open>The action (run, loadSchema)\<close>

text \<open>
  Reading and writing files, parsing, composition and printing are external; they are
  the fields of an environment, each of which may throw. \<open>errors\<close> holds the messages
  of \<open>compositionResult.errors\<close>, undefined after a successful composition.
\<close>

record composition_result =
  errors :: "string list option"
  toGraphQLJSSchema :: "thrown + (schema \<times> store)"

record 'doc environment =
  getInput :: "string \<Rightarrow> string"
  readFileSync :: "string \<Rightarrow> thrown + string"
  parse :: "string \<Rightarrow> thrown + 'doc"
  composeServices :: "'doc \<Rightarrow> thrown + composition_result"
  printSchemaWithDirectives :: "schema \<Rightarrow> store \<Rightarrow> thrown + string"
  writeFileSync :: "string \<Rightarrow> string \<Rightarrow> thrown + unit"

text \<open>\<open>Array.prototype.join\<close>.\<close>

fun join :: "string list \<Rightarrow> string \<Rightarrow> string" where
  "join [] sep = []"
| "join [x] sep = x"
| "join (x # y # ys) sep = x @ sep @ join (y # ys) sep"

definition loadSchema :: "'doc environment \<Rightarrow> string \<Rightarrow> thrown + (schema \<times> store)" where
  "loadSchema env schemaFile =
     (case readFileSync env schemaFile of
        Inl e \<Rightarrow> Inl e
      | Inr text \<Rightarrow>
     (case parse env text of
        Inl e \<Rightarrow> Inl e
      | Inr doc \<Rightarrow>
     (case composeServices env doc of
        Inl e \<Rightarrow> Inl e
      | Inr compositionResult \<Rightarrow>
          (case errors compositionResult of
             Some errs \<Rightarrow> Inl (Error (join errs [CHR 0x0A]))
           | None \<Rightarrow> toGraphQLJSSchema compositionResult))))"

text \<open>
  What a run does, in order: it enters the pipeline, writes the target file, reports a
  failure. The try block returns the events so far with the thrown value.
\<close>

datatype event = NormalizeSchema | WriteFile string string | SetFailed string

definition tryBlock :: "'doc environment \<Rightarrow> (event list \<times> thrown) + event list" where
  "tryBlock env =
     (case loadSchema env (getInput env ''schema'') of
        Inl e \<Rightarrow> Inl ([], e)
      | Inr (s, h) \<Rightarrow>
     (case normalizeSchema s h of
        Inl e \<Rightarrow> Inl ([NormalizeSchema], e)
      | Inr (resultSchema, h') \<Rightarrow>
     (case printSchemaWithDirectives env resultSchema h' of
        Inl e \<Rightarrow> Inl ([NormalizeSchema], e)
      | Inr text \<Rightarrow>
     (case writeFileSync env (getInput env ''target'') text of
        Inl e \<Rightarrow> Inl ([NormalizeSchema], e)
      | Inr u \<Rightarrow> Inr [NormalizeSchema, WriteFile (getInput env ''target'') text]))))"

text \<open>The catch clause reports only instances of Error.\<close>

definition run :: "'doc environment \<Rightarrow> event list" where
  "run env =
     (case tryBlock env of
        Inr evs \<Rightarrow> evs
      | Inl (evs, Error msg) \<Rightarrow> evs @ [SetFailed msg]
      | Inl (evs, NonError v) \<Rightarrow> evs)"

section \<open>A composed schema\<close>

text \<open>
  The composition of a service with an entity \<open>Product\<close> (key \<open>id\<close>), a value type
  \<open>Money\<close> and the root type \<open>Query\<close>, with the join types and directive definitions
  that composition adds, and a scalar of the service named \<open>FieldSet\<close>. The store holds
  the AST nodes: the schema node at 0, then the nodes of the types and of the enum value.
\<close>

definition graphArg :: argument_node where
  "graphArg = \<lparr>arg_name = ''graph'', arg_value = EnumValue ''A''\<rparr>"

definition keyArg :: argument_node where
  "keyArg = \<lparr>arg_name = ''key'', arg_value = StringValue ''id''\<rparr>"

definition joinType :: "argument_node list \<Rightarrow> directive_node" where
  "joinType as = \<lparr>dir_name = ''join__type'', arguments = Some (map Some as)\<rparr>"

definition exStore :: store where
  "exStore =
    [\<lparr>props = [(''kind'', ''SchemaDefinition'')], directives = Some []\<rparr>,
     \<lparr>props = [(''name'', ''Query'')], directives = Some [joinType [graphArg]]\<rparr>,
     \<lparr>props = [(''name'', ''Product'')],
      directives = Some [joinType [graphArg, keyArg], \<lparr>dir_name = ''tag'', arguments = Some []\<rparr>]\<rparr>,
     \<lparr>props = [(''name'', ''Money'')], directives = Some [joinType [graphArg]]\<rparr>,
     \<lparr>props = [(''name'', ''join__Graph'')], directives = Some []\<rparr>,
     \<lparr>props = [(''name'', ''A'')], directives = Some [\<lparr>dir_name = ''join__graph'', arguments = Some []\<rparr>]\<rparr>,
     \<lparr>props = [(''name'', ''join__FieldSet'')], directives = Some []\<rparr>,
     \<lparr>props = [(''name'', ''FieldSet'')], directives = Some []\<rparr>]"

definition objectType :: "string \<Rightarrow> addr \<Rightarrow> (string \<times> field_def) list \<Rightarrow> gql_type" where
  "objectType n a fs =
     \<lparr>t_kind = OBJECT, t_name = n, astNode = Some a, t_fields = fs, t_types = [], t_values = []\<rparr>"

definition exSchema :: schema where
  "exSchema =
    \<lparr>typeMap =
       [(''Query'', objectType ''Query'' 1
           [(''product'', \<lparr>f_name = ''product'', f_type = Named ''Product'', f_args = []\<rparr>)]),
        (''Product'', objectType ''Product'' 2
           [(''price'', \<lparr>f_name = ''price'', f_type = Named ''Money'', f_args = []\<rparr>)]),
        (''Money'', objectType ''Money'' 3 []),
        (''join__Graph'',
           \<lparr>t_kind = ENUM, t_name = ''join__Graph'', astNode = Some 4, t_fields = [], t_types = [],
            t_values = [\<lparr>ev_name = ''A'', ev_astNode = Some 5\<rparr>]\<rparr>),
        (''join__FieldSet'',
           \<lparr>t_kind = SCALAR, t_name = ''join__FieldSet'', astNode = Some 6, t_fields = [], t_types = [],
            t_values = []\<rparr>),
        (''FieldSet'',
           \<lparr>t_kind = SCALAR, t_name = ''FieldSet'', astNode = Some 7, t_fields = [], t_types = [],
            t_values = []\<rparr>)],
     s_directives =
       [\<lparr>d_name = ''join__type'', isRepeatable = True, locations = [LOC_OBJECT, LOC_INTERFACE],
         d_args = [\<lparr>a_name = ''graph'', a_type = GraphQLNonNull (Named ''join__Graph''), a_defaultValue = None\<rparr>,
                   \<lparr>a_name = ''key'', a_type = Named ''join__FieldSet'', a_defaultValue = None\<rparr>]\<rparr>,
        \<lparr>d_name = ''tag'', isRepeatable = True, locations = [LOC_OBJECT], d_args = []\<rparr>],
     s_astNode = Some 0, queryType = Some ''Query'', mutationType = None, subscriptionType = None\<rparr>"

text \<open>The same service without the join types, and an environment whose composition fails.\<close>

definition smallSchema :: schema where
  "smallSchema = exSchema\<lparr>typeMap := take 3 (typeMap exSchema)\<rparr>"

definition failingEnv :: "unit environment" where
  "failingEnv =
     \<lparr>getInput = (\<lambda>n. n),
      readFileSync = (\<lambda>f. Inr ''type Query''),
      parse = (\<lambda>t. Inr ()),
      composeServices = (\<lambda>d. Inr \<lparr>errors = Some [''no query'', ''bad key''],
                                      toGraphQLJSSchema = Inl (Error ''schema is undefined'')\<rparr>),
      printSchemaWithDirectives = (\<lambda>s h. Inr []),
      writeFileSync = (\<lambda>f t. Inr ())\<rparr>"

section \<open>Derived notions\<close>

text \<open>The type mapping as the passes of \<open>mapSchema\<close> hold it, no entry deleted.\<close>

abbreviation entries :: "(string \<times> gql_type) list \<Rightarrow> (string \<times> gql_type option) list" where
  "entries tm \<equiv> map (\<lambda>(k, ty). (k, Some ty)) tm"

text \<open>The kind of the type that a key of the type mapping leads to.\<close>

definition kindByName :: "schema \<Rightarrow> string \<Rightarrow> type_kind option" where
  "kindByName s k = map_option t_kind (getType s k)"

text \<open>The new schema object that \<open>mapSchema\<close> builds around a type mapping.\<close>

definition rebuilt :: "schema \<Rightarrow> (string \<times> gql_type) list \<Rightarrow> directive_def list \<Rightarrow> schema" where
  "rebuilt s tm ds =
     s\<lparr>typeMap := tm, s_directives := ds,
       queryType := getObjectTypeFromTypeMap tm (queryType s),
       mutationType := getObjectTypeFromTypeMap tm (mutationType s),
       subscriptionType := getObjectTypeFromTypeMap tm (subscriptionType s)\<rparr>"

text \<open>
  The references the stripper hands to \<open>removeJoinDirectives\<close>, in the order of the
  passes: the leaf types, the values of the enum types, the other types.
\<close>

definition strippedNodes :: "schema \<Rightarrow> addr option list" where
  "strippedNodes s =
     concat (map (\<lambda>(k, ty). if isLeafType ty then [astNode ty] else []) (typeMap s)) @
     concat (map (\<lambda>(k, ty). if t_kind ty = ENUM \<and> kindByName s k = Some ENUM
                             then map ev_astNode (t_values ty) else []) (typeMap s)) @
     concat (map (\<lambda>(k, ty). if isLeafType ty then [] else [astNode ty]) (typeMap s))"

text \<open>The usages that the stripper keeps, and a node after stripping.\<close>

definition keepUsage :: "directive_node \<Rightarrow> bool" where
  "keepUsage d = (\<not> startsWith (dir_name d) ''join__'')"

definition stripNode :: "ast_node \<Rightarrow> ast_node" where
  "stripNode n = n\<lparr>directives := map_option (filter keepUsage) (directives n)\<rparr>"

text \<open>
  The eliminator in closed form: the keys of the enum and scalar types it deletes, and
  the schema it builds.
\<close>

definition isJoinType :: "gql_type \<Rightarrow> bool" where
  "isJoinType ty = (isLeafType ty \<and> startsWith (t_name ty) ''join__'')"

definition eliminatedNames :: "schema \<Rightarrow> string list" where
  "eliminatedNames s = map fst (filter (\<lambda>(k, ty). isJoinType ty) (typeMap s))"

definition eliminated :: "schema \<Rightarrow> schema" where
  "eliminated s =
     rebuilt s
       (map (\<lambda>(k, ty). (k, rewireNamedType (eliminatedNames s) ty))
          (filter (\<lambda>(k, ty). \<not> isJoinType ty) (typeMap s)))
       (map (\<lambda>d. d\<lparr>d_args := rewireArgs (eliminatedNames s) (d_args d)\<rparr>)
          (filter (\<lambda>d. \<not> startsWith (d_name d) ''join__'') (s_directives s)))"


text \<open>A key of the type mapping that \<open>mapSchema\<close> treats as a root object.\<close>

definition isRootObject :: "schema \<Rightarrow> string \<Rightarrow> bool" where
  "isRootObject s k =
     (kindByName s k = Some OBJECT \<and>
      (queryType s = Some k \<or> mutationType s = Some k \<or> subscriptionType s = Some k))"

text \<open>
  The argument array of the first \<open>join__type\<close> usage of a type, when there is one, and
  whether it holds an argument named \<open>key\<close>.
\<close>

definition joinTypeArguments :: "store \<Rightarrow> gql_type \<Rightarrow> argument_node option list option" where
  "joinTypeArguments h ty =
     map_option (\<lambda>d. case arguments d of None \<Rightarrow> [] | Some as \<Rightarrow> as) (findJoinDirective ty h)"

definition hasKeyArgument :: "store \<Rightarrow> gql_type \<Rightarrow> bool" where
  "hasKeyArgument h ty =
     (case joinTypeArguments h ty of
        None \<Rightarrow> False
      | Some as \<Rightarrow> \<exists>a \<in> set as. (case a of None \<Rightarrow> False | Some arg \<Rightarrow> arg_name arg = ''key''))"

text \<open>
  What graphql-js guarantees of a schema built from a parsed document: the type mapping
  is keyed by the names of its types, the AST references of the types lead into the
  store, and an argument array of a parsed directive has no undefined slot.
\<close>

definition keysAreNames :: "schema \<Rightarrow> bool" where
  "keysAreNames s = (\<forall>(k, ty) \<in> set (typeMap s). t_name ty = k)"

definition validRefs :: "store \<Rightarrow> schema \<Rightarrow> bool" where
  "validRefs h s = (\<forall>(k, ty) \<in> set (typeMap s). \<forall>p. astNode ty = Some p \<longrightarrow> p < length h)"

definition parsedArguments :: "store \<Rightarrow> schema \<Rightarrow> bool" where
  "parsedArguments h s =
     (\<forall>(k, ty) \<in> set (typeMap s). \<forall>as. joinTypeArguments h ty = Some as \<longrightarrow> None \<notin> set as)"

text \<open>The names the classifier records: the object types with a key on their first \<open>join__type\<close>.\<close>

definition entityTypeNames :: "store \<Rightarrow> schema \<Rightarrow> string set" where
  "entityTypeNames h s =
     {t_name ty | k ty. (k, ty) \<in> set (typeMap s) \<and> t_kind ty = OBJECT \<and> hasKeyArgument h ty}"

text \<open>
  How the classifier leaves a type \<open>ty\<close> of the schema it was given, read in its final
  state (the store and the recorded names): an object type with a \<open>join__type\<close> usage
  has a new AST node whose directive list is the old one with the generated usage
  appended; any other type is unchanged.
\<close>

definition classified :: "store \<Rightarrow> store \<times> string list \<Rightarrow> gql_type \<Rightarrow> gql_type \<Rightarrow> bool" where
  "classified h st ty ty' =
     (if t_kind ty = OBJECT \<and> joinTypeArguments h ty \<noteq> None
      then \<exists>as jm ds p.
             joinTypeArguments h ty = Some as \<and> argumentMap as = Inr jm \<and>
             astDirectives h (astNode ty) = Some ds \<and>
             ty' = ty\<lparr>astNode := Some p\<rparr> \<and> length h \<le> p \<and>
             astDirectives (fst st) (Some p) = Some (ds @ [generateFederationDirective jm]) \<and>
             (jm ''key'' \<noteq> None \<longrightarrow> t_name ty \<in> set (snd st))
      else ty' = ty)"

text \<open>A key of a type mapping that leads to an object type of that name.\<close>

definition objectAt :: "(string \<times> gql_type) list \<Rightarrow> string \<Rightarrow> bool" where
  "objectAt tm k = (\<exists>ty. map_of tm k = Some ty \<and> t_kind ty = OBJECT \<and> t_name ty = k)"

section \<open>Properties\<close>

subsection \<open>Basic facts\<close>

lemma map_of_update: "map_of (AList.update k v al) k' = (if k' = k then Some v else map_of al k')"
  by (simp add: update_conv')

lemma small_normalizes:
  "(case normalizeSchema smallSchema exStore of Inl e \<Rightarrow> False | Inr r \<Rightarrow> True)"
  by code_simp

subsection \<open>Facts about the traversal\<close>

lemma forEach_pure:
  assumes "\<And>x st. x \<in> set xs \<Longrightarrow> f x st = Inr (g x, u x st)"
  shows "forEach f xs st = Inr (map g xs, fold u xs st)"
  using assms by (induction xs arbitrary: st) simp_all

lemma forEach_length: "forEach f xs st = Inr (ys, st') \<Longrightarrow> length ys = length xs"
  by (induction xs arbitrary: st ys) (auto split: sum.splits prod.splits)

text \<open>
  A rule for a traversal whose steps keep an invariant \<open>I\<close>, move the state along a
  preorder \<open>R\<close> and relate each element to its result by \<open>Q\<close>, which later steps keep.
\<close>

lemma forEach_rel:
  assumes "forEach f xs st = Inr (ys, st')" and "I st"
    and step: "\<And>x a y b. x \<in> set xs \<Longrightarrow> I a \<Longrightarrow> f x a = Inr (y, b) \<Longrightarrow> I b \<and> R a b \<and> Q x y b"
    and refl: "\<And>a. R a a" and trans: "\<And>a b c. R a b \<Longrightarrow> R b c \<Longrightarrow> R a c"
    and stable: "\<And>x y a b. Q x y a \<Longrightarrow> R a b \<Longrightarrow> Q x y b"
  shows "I st' \<and> R st st' \<and> list_all2 (\<lambda>x y. Q x y st') xs ys"
  using assms(1,2,3)
proof (induction xs arbitrary: st ys)
  case Nil
  then show ?case by (simp add: refl)
next
  case (Cons x xs)
  from Cons.prems(1) obtain y st1 ys' where
    fx: "f x st = Inr (y, st1)" and rest: "forEach f xs st1 = Inr (ys', st')" and ys: "ys = y # ys'"
    by (auto split: sum.splits prod.splits)
  from Cons.prems(3) [of x st y st1] Cons.prems(2) fx
  have 1: "I st1" "R st st1" "Q x y st1" by auto
  have "I st' \<and> R st1 st' \<and> list_all2 (\<lambda>x y. Q x y st') xs ys'"
    using Cons.IH [OF rest 1(1)] Cons.prems(3) by auto
  then show ?case using 1 ys trans stable by auto
qed

lemma forEach_succeeds:
  assumes "I st"
    and "\<And>x a. x \<in> set xs \<Longrightarrow> I a \<Longrightarrow> \<exists>y b. f x a = Inr (y, b) \<and> I b"
  shows "\<exists>ys st'. forEach f xs st = Inr (ys, st')"
  using assms
proof (induction xs arbitrary: st)
  case Nil
  then show ?case by simp
next
  case (Cons x xs)
  from Cons.prems obtain y b where fx: "f x st = Inr (y, b)" and b: "I b" by fastforce
  from Cons.IH [OF b] Cons.prems(2) obtain ys st' where "forEach f xs b = Inr (ys, st')" by auto
  with fx show ?case by simp
qed

lemma forEach_visit:
  assumes "\<And>k ty st. (k, ty) \<in> set tm \<Longrightarrow> f (k, Some ty) st = Inr ((k, Some ty), fold v (w k ty) st)"
  shows "forEach f (entries tm) st = Inr (entries tm, fold v (concat (map (\<lambda>(k, ty). w k ty) tm)) st)"
  using assms by (induction tm arbitrary: st) auto

lemma getTypeMapper_TYPE [simp]: "getTypeMapper s (Map.empty(MK_TYPE \<mapsto> f)) k = Some f"
  by (simp add: getTypeMapper_def getTypeSpecifiers_def split: option.splits type_kind.splits)

lemma getTypeMapper_ENUM_TYPE [simp]:
  "getTypeMapper s (Map.empty(ENUM_TYPE \<mapsto> f)) k = (if kindByName s k = Some ENUM then Some f else None)"
  by (simp add: getTypeMapper_def getTypeSpecifiers_def kindByName_def split: option.splits type_kind.splits)

lemma map_filter_Some [simp]: "List.map_filter id (map Some xs) = xs"
  by (induction xs) (simp_all add: List.map_filter_simps)

lemma removedNames_entries [simp]: "removedNames (entries tm) = []"
  by (induction tm) (auto simp: removedNames_def)

lemma rewireArgs_Nil [simp]: "rewireArgs [] as = as"
  by (simp add: rewireArgs_def)

lemma rewireFields_Nil [simp]: "rewireFields [] fs = fs"
  by (induction fs) (auto simp: rewireFields_def)

lemma rewireMembers_Nil [simp]: "rewireMembers [] ms = ms"
  by (induction ms) (auto simp: rewireMembers_def split: option.splits)

lemma rewireNamedType_Nil [simp]: "rewireNamedType [] ty = ty"
  by (simp add: rewireNamedType_def split: type_kind.splits)

lemma rewireTypes_entries [simp]: "rewireTypes (entries tm) ds = (tm, ds)"
proof -
  have "List.map_filter (\<lambda>e. map_option (\<lambda>ty. (fst e, ty)) (snd e)) (entries tm) = tm"
    by (induction tm) (auto simp: List.map_filter_simps)
  moreover have "map (\<lambda>d. d\<lparr>d_args := d_args d\<rparr>) ds = ds"
    by (induction ds) auto
  ultimately show ?thesis by (simp add: rewireTypes_def)
qed

subsection \<open>The stripper in closed form\<close>

lemma removeJoinDirectivesUsages_eq:
  "removeJoinDirectivesUsages s h =
     Inr (rebuilt s (typeMap s) (s_directives s), fold removeJoinDirectives (strippedNodes s) h)"
proof -
  let ?f = "\<lambda>type h. Inr (Undefined, removeJoinDirectives (astNode type) h) :: thrown + (gql_type mapped \<times> store)"
  let ?g = "\<lambda>valueConfig h. Inr (Undefined, removeJoinDirectives (ev_astNode valueConfig) h) :: thrown + (enum_value mapped \<times> store)"
  have p1: "mapTypes s (Map.empty(MK_TYPE \<mapsto> ?f)) isLeafType (entries (typeMap s)) st =
      Inr (entries (typeMap s),
           fold removeJoinDirectives
             (concat (map (\<lambda>(k, ty). if isLeafType ty then [astNode ty] else []) (typeMap s))) st)" for st
    unfolding mapTypes_def
    by (rule forEach_visit) (simp add: mapType_def applyMapped_def)
  have ev: "forEach (mapEnumValue ?g) vs st = Inr (map Some vs, fold removeJoinDirectives (map ev_astNode vs) st)" for vs st
    by (induction vs arbitrary: st) (simp_all add: mapEnumValue_def applyMapped_def)
  have p2: "mapTypes s (Map.empty(ENUM_TYPE \<mapsto> enumTypeMapper ?g)) (\<lambda>t. t_kind t = ENUM) (entries (typeMap s)) st =
      Inr (entries (typeMap s),
           fold removeJoinDirectives
             (concat (map (\<lambda>(k, ty). if t_kind ty = ENUM \<and> kindByName s k = Some ENUM
                             then map ev_astNode (t_values ty) else []) (typeMap s))) st)" for st
    unfolding mapTypes_def
    by (rule forEach_visit) (simp add: mapType_def applyMapped_def enumTypeMapper_def ev)
  have p3: "mapTypes s (Map.empty(MK_TYPE \<mapsto> ?f)) (\<lambda>t. \<not> isLeafType t) (entries (typeMap s)) st =
      Inr (entries (typeMap s),
           fold removeJoinDirectives
             (concat (map (\<lambda>(k, ty). if isLeafType ty then [] else [astNode ty]) (typeMap s))) st)" for st
    unfolding mapTypes_def
    by (rule forEach_visit) (simp add: mapType_def applyMapped_def)
  show ?thesis
    by (simp add: removeJoinDirectivesUsages_def mapSchema_def p1 p2 p3 mapEnumValues_def mapDirectives_def
          strippedNodes_def rebuilt_def)
qed

lemma getObjectTypeFromTypeMap_idem [simp]:
  "getObjectTypeFromTypeMap tm (getObjectTypeFromTypeMap tm r) = getObjectTypeFromTypeMap tm r"
  by (simp add: getObjectTypeFromTypeMap_def split: option.splits)

lemma rebuilt_idem [simp]: "rebuilt (rebuilt s tm ds) tm ds = rebuilt s tm ds"
  by (simp add: rebuilt_def)

lemma rebuilt_simps [simp]:
  "typeMap (rebuilt s tm ds) = tm" "s_directives (rebuilt s tm ds) = ds"
  by (simp_all add: rebuilt_def)

lemma kindByName_rebuilt [simp]: "kindByName (rebuilt s (typeMap s) ds) = kindByName s"
  by (simp add: kindByName_def getType_def fun_eq_iff)

subsection \<open>What the stripper does to the store\<close>

lemma stripNode_idem [simp]: "stripNode (stripNode n) = stripNode n"
  by (cases "directives n") (simp_all add: stripNode_def)

lemma length_removeJoinDirectives [simp]: "length (removeJoinDirectives a h) = length h"
  by (simp add: removeJoinDirectives_def split: option.splits)

lemma length_fold_removeJoinDirectives [simp]: "length (fold removeJoinDirectives as h) = length h"
  by (induction as arbitrary: h) simp_all

lemma deref_removeJoinDirectives:
  "deref (removeJoinDirectives a h) p =
     map_option (\<lambda>n. if a = Some p then stripNode n else n) (deref h p)"
proof (cases a)
  case None
  then show ?thesis by (simp add: removeJoinDirectives_def option.map_ident)
next
  case (Some q)
  note a = this
  show ?thesis
  proof (cases "deref h q")
    case None
    with a show ?thesis
      by (auto simp: removeJoinDirectives_def deref_def)
  next
    case (Some n)
    with a show ?thesis
      by (cases "directives n")
         (auto simp: removeJoinDirectives_def deref_def stripNode_def keepUsage_def [abs_def] split: if_splits)
  qed
qed

lemma deref_fold_removeJoinDirectives:
  "deref (fold removeJoinDirectives as h) p =
     map_option (\<lambda>n. if Some p \<in> set as then stripNode n else n) (deref h p)"
proof (induction as arbitrary: h)
  case Nil
  then show ?case by (simp add: option.map_ident)
next
  case (Cons a as)
  show ?case
    by (cases "deref h p") (auto simp: Cons.IH deref_removeJoinDirectives)
qed

lemma astDirectives_stripped:
  "astDirectives (fold removeJoinDirectives as h) a =
     (if a \<in> set as then map_option (filter keepUsage) (astDirectives h a) else astDirectives h a)"
proof (cases a)
  case None
  then show ?thesis by (simp add: astDirectives_def)
next
  case (Some p)
  then show ?thesis
    by (cases "deref h p")
       (auto simp: astDirectives_def deref_fold_removeJoinDirectives stripNode_def)
qed


lemma enum_values_stripped:
  assumes "distinct (map fst (typeMap s))" and "(k, ty) \<in> set (typeMap s)" and "t_kind ty = ENUM"
    and "v \<in> set (t_values ty)"
  shows "ev_astNode v \<in> set (strippedNodes s)"
proof -
  from assms(1,2) have "getType s k = Some ty" by (simp add: getType_def)
  with assms(3) have "kindByName s k = Some ENUM" by (simp add: kindByName_def)
  with assms(2,3,4) show ?thesis by (force simp: strippedNodes_def)
qed

lemma types_stripped:
  assumes "(k, ty) \<in> set (typeMap s)"
  shows "astNode ty \<in> set (strippedNodes s)"
  using assms by (cases "isLeafType ty") (force simp: strippedNodes_def)+

subsection \<open>The eliminator in closed form\<close>

lemma forEach_same:
  assumes "\<And>x st. x \<in> set xs \<Longrightarrow> f x st = Inr (x, st)"
  shows "forEach f xs st = Inr (xs, st)"
  using assms by (induction xs arbitrary: st) simp_all

lemma forEach_map:
  assumes "\<And>x st. x \<in> set xs \<Longrightarrow> f x st = Inr (g x, st)"
  shows "forEach f xs st = Inr (map g xs, st)"
  using assms by (induction xs arbitrary: st) simp_all

lemma kindByName_entry:
  assumes "distinct (map fst (typeMap s))" and "(k, ty) \<in> set (typeMap s)"
  shows "kindByName s k = Some (t_kind ty)"
  using assms by (simp add: kindByName_def getType_def)

lemma getTypeMapper_leaf:
  "getTypeMapper s (Map.empty(ENUM_TYPE \<mapsto> f, SCALAR_TYPE \<mapsto> g)) k =
     (if kindByName s k = Some ENUM then Some f
      else if kindByName s k = Some SCALAR then Some g else None)"
  by (simp add: getTypeMapper_def getTypeSpecifiers_def kindByName_def split: option.splits type_kind.splits)

lemma removeJoinTypes_eq:
  assumes d: "distinct (map fst (typeMap s))"
  shows "removeJoinTypes s h = Inr (eliminated s, h)"
proof -
  let ?f = "\<lambda>type h. Inr (if startsWith (t_name type) ''join__'' then Null else Undefined, h)
              :: thrown + (gql_type mapped \<times> store)"
  let ?m = "Map.empty(ENUM_TYPE \<mapsto> ?f, SCALAR_TYPE \<mapsto> ?f)"
  let ?g = "\<lambda>e :: string \<times> gql_type option.
              (fst e, case snd e of None \<Rightarrow> None | Some ty \<Rightarrow> if isJoinType ty then None else Some ty)"
  let ?tm1 = "map ?g (entries (typeMap s))"
  have p1: "mapTypes s ?m isLeafType (entries (typeMap s)) st = Inr (?tm1, st)" for st
    unfolding mapTypes_def
  proof (rule forEach_map)
    fix x st assume "x \<in> set (entries (typeMap s))"
    then obtain k ty where x: "x = (k, Some ty)" and m: "(k, ty) \<in> set (typeMap s)" by auto
    from kindByName_entry [OF d m] show "mapType s ?m isLeafType x st = Inr (?g x, st)"
      by (auto simp: x mapType_def getTypeMapper_leaf isLeafType_def isJoinType_def applyMapped_def)
  qed
  have p3: "mapTypes s ?m (\<lambda>t. \<not> isLeafType t) ?tm1 st = Inr (?tm1, st)" for st
    unfolding mapTypes_def
  proof (rule forEach_same)
    fix x st assume "x \<in> set ?tm1"
    then obtain k ty where m: "(k, ty) \<in> set (typeMap s)"
      and x: "x = (k, if isJoinType ty then None else Some ty)" by auto
    from kindByName_entry [OF d m] show "mapType s ?m (\<lambda>t. \<not> isLeafType t) x st = Inr (x, st)"
      by (auto simp: x mapType_def getTypeMapper_leaf isLeafType_def)
  qed
  have pd: "forEach (mapDirective (\<lambda>directive h. Inr (if startsWith (d_name directive) ''join__'' then Null else Value directive, h)))
              ds st =
            Inr (map (\<lambda>d. if startsWith (d_name d) ''join__'' then None else Some d) ds, st)" for ds and st :: store
    by (rule forEach_map) (simp add: mapDirective_def applyMapped_def)
  have "map fst (filter (\<lambda>e. snd e = None) (map ?g (entries tm))) =
      map fst (filter (\<lambda>(k, ty). isJoinType ty) tm)" for tm
    by (induction tm) (auto split: if_splits)
  then have rn: "removedNames ?tm1 = eliminatedNames s"
    by (simp add: removedNames_def eliminatedNames_def)
  have kept: "List.map_filter (\<lambda>e. map_option (\<lambda>ty. (fst e, rewireNamedType ns ty)) (snd e)) (map ?g (entries tm)) =
      map (\<lambda>(k, ty). (k, rewireNamedType ns ty)) (filter (\<lambda>(k, ty). \<not> isJoinType ty) tm)" for ns tm
    by (induction tm) (auto simp: List.map_filter_simps)
  have dk: "List.map_filter id (map (\<lambda>d. if startsWith (d_name d) ''join__'' then None else Some d) ds) =
      filter (\<lambda>d. \<not> startsWith (d_name d) ''join__'') ds" for ds :: "directive_def list"
    by (induction ds) (auto simp: List.map_filter_simps)
  show ?thesis
    by (simp add: removeJoinTypes_def mapSchema_def p1 p3 pd mapEnumValues_def mapDirectives_def
          rewireTypes_def rn kept dk eliminated_def rebuilt_def del: map_map)
qed

subsection \<open>Stripping and eliminating\<close>

lemma strippedNodes_rebuilt [simp]: "strippedNodes (rebuilt s (typeMap s) ds) = strippedNodes s"
  by (simp add: strippedNodes_def)

lemma rewireNamedType_simps [simp]:
  "t_kind (rewireNamedType ns ty) = t_kind ty" "t_name (rewireNamedType ns ty) = t_name ty"
  "astNode (rewireNamedType ns ty) = astNode ty" "t_values (rewireNamedType ns ty) = t_values ty"
  by (simp_all add: rewireNamedType_def split: type_kind.splits)

lemma isLeafType_rewire [simp]: "isLeafType (rewireNamedType ns ty) = isLeafType ty"
  by (simp add: isLeafType_def)

lemma isJoinType_rewire [simp]: "isJoinType (rewireNamedType ns ty) = isJoinType ty"
  by (simp add: isJoinType_def isLeafType_def)

lemma typeMap_eliminated:
  "typeMap (eliminated s) =
     map (\<lambda>(k, ty). (k, rewireNamedType (eliminatedNames s) ty))
       (filter (\<lambda>(k, ty). \<not> isJoinType ty) (typeMap s))"
  by (simp add: eliminated_def)




lemma eliminatedNames_eliminated [simp]: "eliminatedNames (eliminated s) = []"
  by (auto simp: eliminatedNames_def typeMap_eliminated filter_empty_conv)





subsection \<open>Stages that map the object types only\<close>

lemma list_all2_entries:
  assumes "list_all2 (\<lambda>x y. fst y = fst x \<and> (\<exists>ty ty'. snd x = Some ty \<and> snd y = Some ty' \<and> P (fst x) ty ty'))
             (entries tm) out"
  shows "\<exists>tm'. out = entries tm' \<and> list_all2 (\<lambda>(k, ty) (k', ty'). k' = k \<and> P k ty ty') tm tm'"
  using assms
proof (induction tm arbitrary: out)
  case Nil
  then show ?case by simp
next
  case (Cons e tm)
  obtain k ty where e: "e = (k, ty)" by (cases e)
  from Cons.prems e obtain y out' where out: "out = y # out'"
    and y: "fst y = k" "\<exists>ty'. snd y = Some ty' \<and> P k ty ty'"
    and rest: "list_all2 (\<lambda>x y. fst y = fst x \<and> (\<exists>ty ty'. snd x = Some ty \<and> snd y = Some ty' \<and> P (fst x) ty ty'))
             (entries tm) out'"
    by (auto simp: list_all2_Cons1)
  from y obtain ty' where y': "y = (k, Some ty')" and p: "P k ty ty'" by (cases y) auto
  from Cons.IH [OF rest] obtain tm' where "out' = entries tm'"
    and "list_all2 (\<lambda>(k, ty) (k', ty'). k' = k \<and> P k ty ty') tm tm'" by auto
  with out y' p e have "out = entries ((k, ty') # tm') \<and>
      list_all2 (\<lambda>(k, ty) (k', ty'). k' = k \<and> P k ty ty') (e # tm) ((k, ty') # tm')" by simp
  then show ?case by blast
qed

lemma mapSchema_nonleaf:
  assumes leaf: "\<And>k ty. (k, ty) \<in> set (typeMap s) \<Longrightarrow> isLeafType ty \<Longrightarrow> getTypeMapper s (type_mappers m) k = None"
    and ev: "ENUM_VALUE m = None" and dir: "DIRECTIVE m = None"
  shows "mapSchema s m st =
     (case mapTypes s (type_mappers m) (\<lambda>t. \<not> isLeafType t) (entries (typeMap s)) st of
        Inl e \<Rightarrow> Inl e
      | Inr (tm3, st3) \<Rightarrow>
          Inr (rebuilt s (fst (rewireTypes tm3 (s_directives s))) (snd (rewireTypes tm3 (s_directives s))), st3))"
proof -
  have p1: "mapTypes s (type_mappers m) isLeafType (entries (typeMap s)) st = Inr (entries (typeMap s), st)"
    unfolding mapTypes_def
    by (rule forEach_same) (auto simp: mapType_def leaf)
  show ?thesis
    by (simp add: mapSchema_def p1 mapEnumValues_def mapDirectives_def ev dir rebuilt_def
          split: sum.splits prod.splits)
qed

lemma mapSchema_objects:
  assumes leaf: "\<And>k ty. (k, ty) \<in> set (typeMap s) \<Longrightarrow> isLeafType ty \<Longrightarrow> getTypeMapper s (type_mappers m) k = None"
    and ev: "ENUM_VALUE m = None" and dir: "DIRECTIVE m = None"
    and run: "mapSchema s m st = Inr (s', st')" and inv: "I st"
    and step: "\<And>k ty f a r b. (k, ty) \<in> set (typeMap s) \<Longrightarrow> \<not> isLeafType ty \<Longrightarrow>
                 getTypeMapper s (type_mappers m) k = Some f \<Longrightarrow> I a \<Longrightarrow> f ty a = Inr (r, b) \<Longrightarrow>
                 I b \<and> R a b \<and> (\<exists>ty'. applyMapped r ty = Some ty' \<and> P k ty ty' b)"
    and skip: "\<And>k ty a. (k, ty) \<in> set (typeMap s) \<Longrightarrow>
                 isLeafType ty \<or> getTypeMapper s (type_mappers m) k = None \<Longrightarrow> I a \<Longrightarrow> P k ty ty a"
    and refl: "\<And>a. R a a" and trans: "\<And>a b c. R a b \<Longrightarrow> R b c \<Longrightarrow> R a c"
    and stable: "\<And>k ty ty' a b. P k ty ty' a \<Longrightarrow> R a b \<Longrightarrow> P k ty ty' b"
  shows "I st' \<and> R st st' \<and> s' = rebuilt s (typeMap s') (s_directives s) \<and>
         list_all2 (\<lambda>(k, ty) (k', ty'). k' = k \<and> P k ty ty' st') (typeMap s) (typeMap s')"
proof -
  let ?f = "mapType s (type_mappers m) (\<lambda>t. \<not> isLeafType t)"
  let ?Q = "\<lambda>x y b. fst y = fst x \<and> (\<exists>ty ty'. snd x = Some ty \<and> snd y = Some ty' \<and> P (fst x) ty ty' b)"
  have eq: "mapSchema s m st =
     (case forEach ?f (entries (typeMap s)) st of
        Inl e \<Rightarrow> Inl e
      | Inr (tm3, st3) \<Rightarrow>
          Inr (rebuilt s (fst (rewireTypes tm3 (s_directives s))) (snd (rewireTypes tm3 (s_directives s))), st3))"
    using leaf ev dir by (simp add: mapSchema_nonleaf mapTypes_def)
  from run obtain tm3 where p3: "forEach ?f (entries (typeMap s)) st = Inr (tm3, st')"
    and s': "s' = rebuilt s (fst (rewireTypes tm3 (s_directives s))) (snd (rewireTypes tm3 (s_directives s)))"
    unfolding eq by (auto split: sum.splits prod.splits)
  have "I st' \<and> R st st' \<and> list_all2 (\<lambda>x y. ?Q x y st') (entries (typeMap s)) tm3"
  proof (rule forEach_rel [where I = I and R = R and Q = ?Q, OF p3 inv])
    fix x a y b
    assume x: "x \<in> set (entries (typeMap s))" and a: "I a" and fx: "?f x a = Inr (y, b)"
    from x obtain k ty where xe: "x = (k, Some ty)" and m: "(k, ty) \<in> set (typeMap s)" by auto
    show "I b \<and> R a b \<and> ?Q x y b"
    proof (cases "isLeafType ty \<or> getTypeMapper s (type_mappers m) k = None")
      case True
      with fx xe have "y = x" "b = a" by (auto simp: mapType_def split: if_splits)
      with skip [OF m True a] a refl xe show ?thesis by simp
    next
      case False
      then obtain f where f: "getTypeMapper s (type_mappers m) k = Some f" and nl: "\<not> isLeafType ty" by auto
      with fx xe obtain r where r: "f ty a = Inr (r, b)" and y: "y = (k, applyMapped r ty)"
        by (auto simp: mapType_def split: sum.splits prod.splits if_splits)
      from step [OF m nl f a r] y xe show ?thesis by auto
    qed
  next
    show "R a a" for a by (rule refl)
  next
    show "R a c" if "R a b" "R b c" for a b c using that by (rule trans)
  next
    show "?Q x y b" if "?Q x y a" "R a b" for x y a b using that stable by blast
  qed
  then have 1: "I st'" "R st st'"
    and 2: "list_all2 (\<lambda>x y. fst y = fst x \<and> (\<exists>ty ty'. snd x = Some ty \<and> snd y = Some ty' \<and> P (fst x) ty ty' st'))
              (entries (typeMap s)) tm3" by auto
  from list_all2_entries [OF 2] obtain tm' where tm3: "tm3 = entries tm'"
    and 3: "list_all2 (\<lambda>(k, ty) (k', ty'). k' = k \<and> P k ty ty' st') (typeMap s) tm'" by auto
  from s' tm3 have "s' = rebuilt s tm' (s_directives s)" by simp
  with 1 3 show ?thesis by simp
qed

lemma mapSchema_objects_succeeds:
  assumes leaf: "\<And>k ty. (k, ty) \<in> set (typeMap s) \<Longrightarrow> isLeafType ty \<Longrightarrow> getTypeMapper s (type_mappers m) k = None"
    and ev: "ENUM_VALUE m = None" and dir: "DIRECTIVE m = None"
    and inv: "I st"
    and step: "\<And>k ty f a. (k, ty) \<in> set (typeMap s) \<Longrightarrow> \<not> isLeafType ty \<Longrightarrow>
                 getTypeMapper s (type_mappers m) k = Some f \<Longrightarrow> I a \<Longrightarrow> \<exists>r b. f ty a = Inr (r, b) \<and> I b"
  shows "\<exists>s' st'. mapSchema s m st = Inr (s', st')"
proof -
  let ?f = "mapType s (type_mappers m) (\<lambda>t. \<not> isLeafType t)"
  have "\<exists>ys st'. forEach ?f (entries (typeMap s)) st = Inr (ys, st')"
  proof (rule forEach_succeeds [where I = I, OF inv])
    fix x a assume x: "x \<in> set (entries (typeMap s))" and a: "I a"
    from x obtain k ty where xe: "x = (k, Some ty)" and m: "(k, ty) \<in> set (typeMap s)" by auto
    show "\<exists>y b. ?f x a = Inr (y, b) \<and> I b"
    proof (cases "isLeafType ty \<or> getTypeMapper s (type_mappers m) k = None")
      case True
      with a xe show ?thesis by (auto simp: mapType_def)
    next
      case False
      then obtain f where f: "getTypeMapper s (type_mappers m) k = Some f" and nl: "\<not> isLeafType ty" by auto
      from step [OF m nl f a] f nl xe show ?thesis by (auto simp: mapType_def)
    qed
  qed
  moreover have "mapSchema s m st =
     (case forEach ?f (entries (typeMap s)) st of
        Inl e \<Rightarrow> Inl e
      | Inr (tm3, st3) \<Rightarrow>
          Inr (rebuilt s (fst (rewireTypes tm3 (s_directives s))) (snd (rewireTypes tm3 (s_directives s))), st3))"
    using leaf ev dir by (simp add: mapSchema_nonleaf mapTypes_def)
  ultimately show ?thesis by auto
qed

subsection \<open>Root types\<close>

lemma list_all2_map_of:
  assumes "list_all2 (\<lambda>(k, ty) (k', ty'). k' = k \<and> P k ty ty') tm tm'"
  shows "map fst tm' = map fst tm"
    and "map_of tm' k = Some ty' \<Longrightarrow> \<exists>ty. map_of tm k = Some ty \<and> P k ty ty'"
    and "map_of tm k = Some ty \<Longrightarrow> \<exists>ty'. map_of tm' k = Some ty' \<and> P k ty ty'"
  using assms by (induction tm tm' rule: list_all2_induct) (auto split: if_splits)

lemma list_all2_member:
  assumes "list_all2 (\<lambda>(k, ty) (k', ty'). k' = k \<and> P k ty ty') tm tm'" and "(k, ty) \<in> set tm"
  shows "\<exists>ty'. (k, ty') \<in> set tm' \<and> P k ty ty'"
  using assms by (induction tm tm' rule: list_all2_induct) auto

lemma getTypeMapper_ROOT:
  "getTypeMapper s (Map.empty(ROOT_OBJECT \<mapsto> f)) k = (if isRootObject s k then Some f else None)"
  by (auto simp: getTypeMapper_def getTypeSpecifiers_def kindByName_def isRootObject_def
      split: option.splits type_kind.splits)

lemma deref_prefix: "prefix a b \<Longrightarrow> deref a p = Some n \<Longrightarrow> deref b p = Some n"
  by (auto simp: prefix_def deref_def nth_append split: if_splits)

lemma astDirectives_prefix: "prefix a b \<Longrightarrow> astDirectives a r = Some ds \<Longrightarrow> astDirectives b r = Some ds"
  by (cases r) (auto simp: astDirectives_def dest: deref_prefix split: option.splits)

lemma sanitizer_rel:
  assumes d: "distinct (map fst (typeMap s))"
  shows "\<exists>s' h'. removeFederationDirectivesFromRootObjects s h = Inr (s', h') \<and> prefix h h' \<and>
           s' = rebuilt s (typeMap s') (s_directives s) \<and>
           list_all2 (\<lambda>(k, ty) (k', ty'). k' = k \<and>
               (if isRootObject s k
                then \<exists>p. ty' = ty\<lparr>astNode := Some p\<rparr> \<and> length h \<le> p \<and> astDirectives h' (Some p) = Some []
                else ty' = ty))
             (typeMap s) (typeMap s')"
proof -
  let ?m = "\<lparr>type_mappers = Map.empty(ROOT_OBJECT \<mapsto> rootObjectMapper),
             ENUM_VALUE = None, DIRECTIVE = None\<rparr> :: store SchemaMapper"
  let ?P = "\<lambda>k ty ty' b. if isRootObject s k
                then \<exists>p. ty' = ty\<lparr>astNode := Some p\<rparr> \<and> length h \<le> p \<and> astDirectives b (Some p) = Some []
                else ty' = ty"
  have leaf: "getTypeMapper s (type_mappers ?m) k = None" if "(k, ty) \<in> set (typeMap s)" "isLeafType ty" for k ty
    using kindByName_entry [OF d that(1)] that(2)
    by (auto simp: getTypeMapper_ROOT isRootObject_def isLeafType_def)
  have "\<exists>s' h'. mapSchema s ?m h = Inr (s', h')"
  proof (rule mapSchema_objects_succeeds [where I = "\<lambda>a. True"])
    show "getTypeMapper s (type_mappers ?m) k = None" if "(k, ty) \<in> set (typeMap s)" "isLeafType ty" for k ty
      using that by (rule leaf)
  next
    show "\<exists>r b. f ty a = Inr (r, b) \<and> True"
      if "getTypeMapper s (type_mappers ?m) k = Some f" for k ty f and a :: store
      using that by (auto simp: getTypeMapper_ROOT rootObjectMapper_def split: if_splits)
  qed auto
  then obtain s' h' where run: "mapSchema s ?m h = Inr (s', h')" by auto
  have "prefix h h' \<and> prefix h h' \<and> s' = rebuilt s (typeMap s') (s_directives s) \<and>
         list_all2 (\<lambda>(k, ty) (k', ty'). k' = k \<and> ?P k ty ty' h') (typeMap s) (typeMap s')"
  proof (rule mapSchema_objects [where I = "prefix h" and R = prefix and P = ?P and m = ?m, OF _ _ _ run])
    show "getTypeMapper s (type_mappers ?m) k = None" if "(k, ty) \<in> set (typeMap s)" "isLeafType ty" for k ty
      using that by (rule leaf)
  next
    fix k ty f a r b
    assume "getTypeMapper s (type_mappers ?m) k = Some f" and a: "prefix h a" and f: "f ty a = Inr (r, b)"
    then have root: "isRootObject s k" and "f = rootObjectMapper"
      by (auto simp: getTypeMapper_ROOT split: if_splits)
    with f have r: "r = Value (ty\<lparr>astNode := Some (length a)\<rparr>)"
      and b: "b = a @ [(spreadNode a (astNode ty))\<lparr>directives := Some []\<rparr>]"
      by (auto simp: rootObjectMapper_def alloc_def)
    from a have le: "length h \<le> length a" by (auto simp: prefix_def)
    have ad: "astDirectives b (Some (length a)) = Some []"
      by (simp add: b astDirectives_def deref_def)
    from a have hb: "prefix h b" and ab: "prefix a b" by (simp_all add: b)
    have "applyMapped r ty = Some (ty\<lparr>astNode := Some (length a)\<rparr>)"
      by (simp add: r applyMapped_def)
    moreover have "?P k ty (ty\<lparr>astNode := Some (length a)\<rparr>) b"
      using root ad le by auto
    ultimately show "prefix h b \<and> prefix a b \<and> (\<exists>ty'. applyMapped r ty = Some ty' \<and> ?P k ty ty' b)"
      using hb ab by blast
  next
    fix k ty and a :: store
    assume m: "(k, ty) \<in> set (typeMap s)" and c: "isLeafType ty \<or> getTypeMapper s (type_mappers ?m) k = None"
    from c leaf [OF m] have "\<not> isRootObject s k" by (auto simp: getTypeMapper_ROOT split: if_splits)
    then show "?P k ty ty a" by simp
  next
    show "?P k ty ty' b" if "?P k ty ty' a" "prefix a b" for k ty ty' a b
    proof (cases "isRootObject s k")
      case True
      with that(1) obtain p where "ty' = ty\<lparr>astNode := Some p\<rparr>" "length h \<le> p"
        "astDirectives a (Some p) = Some []" by auto
      with astDirectives_prefix [OF that(2)] True show ?thesis by auto
    next
      case False
      with that(1) show ?thesis by simp
    qed
  next
    show "prefix h h" by simp
  next
    show "prefix a c" if "prefix a b" "prefix b c" for a b c :: store
      using that by (rule prefix_order.trans)
  qed simp_all
  then have "prefix h h'" "s' = rebuilt s (typeMap s') (s_directives s)"
    "list_all2 (\<lambda>(k, ty) (k', ty'). k' = k \<and> ?P k ty ty' h') (typeMap s) (typeMap s')" by blast+
  moreover from run have "removeFederationDirectivesFromRootObjects s h = Inr (s', h')"
    by (simp add: removeFederationDirectivesFromRootObjects_def)
  ultimately show ?thesis by blast
qed

subsection \<open>The classifier\<close>

lemma getTypeMapper_OBJECT:
  "getTypeMapper s (Map.empty(OBJECT_TYPE \<mapsto> f)) k = (if kindByName s k = Some OBJECT then Some f else None)"
  by (auto simp: getTypeMapper_def getTypeSpecifiers_def kindByName_def
      split: option.splits type_kind.splits)

lemma deref_valid: "prefix h a \<Longrightarrow> p < length h \<Longrightarrow> deref a p = deref h p"
  by (auto simp: prefix_def deref_def nth_append)

lemma astDirectives_valid:
  assumes "prefix h a" and "\<And>p. r = Some p \<Longrightarrow> p < length h"
  shows "astDirectives a r = astDirectives h r"
  using assms by (cases r) (simp_all add: astDirectives_def deref_valid)

lemma findJoinDirective_valid:
  assumes "prefix h a" and "\<And>p. astNode ty = Some p \<Longrightarrow> p < length h"
  shows "findJoinDirective ty a = findJoinDirective ty h"
  using astDirectives_valid [OF assms] by (simp add: findJoinDirective_def)

lemma argumentMap_key:
  assumes "argumentMap as = Inr jm"
  shows "jm n \<noteq> None \<longleftrightarrow> (\<exists>a \<in> set as. (case a of None \<Rightarrow> False | Some arg \<Rightarrow> arg_name arg = n))"
proof -
  from assms obtain xs where xs: "those as = Some xs"
    and jm: "jm = map_of (rev (map (\<lambda>arg. (arg_name arg, arg)) xs))"
    by (auto simp: argumentMap_def split: option.splits)
  have as: "as = map Some xs" using xs
    by (induction as arbitrary: xs) (auto split: option.splits)
  have "jm n \<noteq> None \<longleftrightarrow> n \<in> arg_name ` set xs"
    unfolding jm by (simp add: map_of_eq_None_iff image_image)
  also have "\<dots> \<longleftrightarrow> (\<exists>a \<in> set as. (case a of None \<Rightarrow> False | Some arg \<Rightarrow> arg_name arg = n))"
    unfolding as by auto
  finally show ?thesis .
qed

lemma argumentMap_parsed:
  assumes "None \<notin> set as"
  shows "\<exists>jm. argumentMap as = Inr jm"
proof -
  from assms have "\<exists>xs. those as = Some xs"
  proof (induction as)
    case Nil
    then show ?case by simp
  next
    case (Cons a as)
    then obtain x xs where "a = Some x" "those as = Some xs" by (cases a) auto
    then show ?case by simp
  qed
  then show ?thesis by (auto simp: argumentMap_def)
qed

lemma generated_name:
  "dir_name (generateFederationDirective jm) = ''key'' \<longleftrightarrow> jm ''key'' \<noteq> None"
  by (simp add: generateFederationDirective_def)

text \<open>What the mapper for object types does at one type, in a store that extends \<open>h\<close>.\<close>

lemma objectTypeMapper_step:
  assumes a: "prefix h a" and v: "\<And>p. astNode ty = Some p \<Longrightarrow> p < length h"
    and f: "objectTypeMapper ty (a, ns) = Inr (r, b)"
  shows "(joinTypeArguments h ty = None \<and> r = Undefined \<and> b = (a, ns)) \<or>
         (\<exists>as jm ds. joinTypeArguments h ty = Some as \<and> argumentMap as = Inr jm \<and>
            astDirectives h (astNode ty) = Some ds \<and>
            r = Value (ty\<lparr>astNode := Some (length a)\<rparr>) \<and>
            fst b = a @ [(spreadNode a (astNode ty))\<lparr>directives := Some (ds @ [generateFederationDirective jm])\<rparr>] \<and>
            snd b = (if jm ''key'' \<noteq> None then ns @ [t_name ty] else ns))"
proof (cases "findJoinDirective ty h")
  case None
  with f show ?thesis
    by (simp add: objectTypeMapper_def findJoinDirective_valid [OF a v] joinTypeArguments_def)
next
  case (Some jd)
  with f show ?thesis
    by (auto simp: objectTypeMapper_def findJoinDirective_valid [OF a v] astDirectives_valid [OF a v]
          joinTypeArguments_def alloc_def generated_name
        split: sum.splits option.splits)
qed

lemma classified_stable:
  assumes "classified h a ty ty'" and "prefix (fst a) (fst b)" and "set (snd a) \<subseteq> set (snd b)"
  shows "classified h b ty ty'"
proof (cases "t_kind ty = OBJECT \<and> joinTypeArguments h ty \<noteq> None")
  case True
  with assms(1) obtain as jm ds p where
    1: "joinTypeArguments h ty = Some as" "argumentMap as = Inr jm"
       "astDirectives h (astNode ty) = Some ds" "ty' = ty\<lparr>astNode := Some p\<rparr>" "length h \<le> p"
    and 2: "astDirectives (fst a) (Some p) = Some (ds @ [generateFederationDirective jm])"
    and 3: "jm ''key'' \<noteq> None \<longrightarrow> t_name ty \<in> set (snd a)"
    unfolding classified_def by auto
  from astDirectives_prefix [OF assms(2) 2] 3 assms(3)
  have "astDirectives (fst b) (Some p) = Some (ds @ [generateFederationDirective jm])"
    and "jm ''key'' \<noteq> None \<longrightarrow> t_name ty \<in> set (snd b)" by auto
  with True 1 show ?thesis unfolding classified_def by auto
next
  case False
  with assms(1) show ?thesis by (simp add: classified_def)
qed

lemma classifier_leaf:
  assumes d: "distinct (map fst (typeMap s))" and m: "(k, ty) \<in> set (typeMap s)"
  shows "getTypeMapper s (Map.empty(OBJECT_TYPE \<mapsto> f)) k = (if t_kind ty = OBJECT then Some f else None)"
  using kindByName_entry [OF d m] by (simp add: getTypeMapper_OBJECT)

lemma classifier_rel:
  assumes d: "distinct (map fst (typeMap s))" and v: "validRefs h s"
    and run: "addFederationDirectives s h = Inr ((s', names), h')"
  shows "prefix h h' \<and> set names \<subseteq> entityTypeNames h s \<and>
         s' = rebuilt s (typeMap s') (s_directives s) \<and>
         list_all2 (\<lambda>(k, ty) (k', ty'). k' = k \<and> classified h (h', names) ty ty') (typeMap s) (typeMap s')"
proof -
  let ?m = "\<lparr>type_mappers = Map.empty(OBJECT_TYPE \<mapsto> objectTypeMapper),
             ENUM_VALUE = None, DIRECTIVE = None\<rparr> :: (store \<times> string list) SchemaMapper"
  let ?I = "\<lambda>st :: store \<times> string list. prefix h (fst st) \<and> set (snd st) \<subseteq> entityTypeNames h s"
  let ?R = "\<lambda>a b :: store \<times> string list. prefix (fst a) (fst b) \<and> set (snd a) \<subseteq> set (snd b)"
  let ?P = "\<lambda>(k :: string) ty ty' st. classified h st ty ty'"
  from run have run': "mapSchema s ?m (h, []) = Inr (s', (h', names))"
    by (auto simp: addFederationDirectives_def split: sum.splits prod.splits)
  have valid: "p < length h" if "(k, ty) \<in> set (typeMap s)" "astNode ty = Some p" for k ty p
    using v that by (auto simp: validRefs_def)
  have "?I (h', names) \<and> ?R (h, []) (h', names) \<and> s' = rebuilt s (typeMap s') (s_directives s) \<and>
         list_all2 (\<lambda>(k, ty) (k', ty'). k' = k \<and> ?P k ty ty' (h', names)) (typeMap s) (typeMap s')"
  proof (rule mapSchema_objects [where I = ?I and R = ?R and P = ?P and m = ?m, OF _ _ _ run'])
    show "getTypeMapper s (type_mappers ?m) k = None" if "(k, ty) \<in> set (typeMap s)" "isLeafType ty" for k ty
      using that by (auto simp: classifier_leaf [OF d] isLeafType_def)
  next
    fix k ty f a r b
    assume m: "(k, ty) \<in> set (typeMap s)"
      and g: "getTypeMapper s (type_mappers ?m) k = Some f" and a: "?I a" and f: "f ty a = Inr (r, b)"
    from g m have obj: "t_kind ty = OBJECT" and fo: "f = objectTypeMapper"
      by (auto simp: classifier_leaf [OF d] split: if_splits)
    from a have pa: "prefix h (fst a)" and na: "set (snd a) \<subseteq> entityTypeNames h s" by auto
    from f fo have f': "objectTypeMapper ty (fst a, snd a) = Inr (r, b)" by simp
    have vt: "p < length h" if "astNode ty = Some p" for p
      using valid [OF m that] .
    have "(joinTypeArguments h ty = None \<and> r = Undefined \<and> b = (fst a, snd a)) \<or>
         (\<exists>as jm ds. joinTypeArguments h ty = Some as \<and> argumentMap as = Inr jm \<and>
            astDirectives h (astNode ty) = Some ds \<and>
            r = Value (ty\<lparr>astNode := Some (length (fst a))\<rparr>) \<and>
            fst b = fst a @ [(spreadNode (fst a) (astNode ty))\<lparr>directives := Some (ds @ [generateFederationDirective jm])\<rparr>] \<and>
            snd b = (if jm ''key'' \<noteq> None then snd a @ [t_name ty] else snd a))"
      by (rule objectTypeMapper_step [OF pa _ f']) (rule vt)
    then show "?I b \<and> ?R a b \<and> (\<exists>ty'. applyMapped r ty = Some ty' \<and> ?P k ty ty' b)"
    proof (elim disjE conjE exE)
      assume "joinTypeArguments h ty = None" "r = Undefined" "b = (fst a, snd a)"
      with a show ?thesis by (simp add: applyMapped_def classified_def)
    next
      fix as jm ds
      assume j: "joinTypeArguments h ty = Some as" and am: "argumentMap as = Inr jm"
        and ds: "astDirectives h (astNode ty) = Some ds"
        and r: "r = Value (ty\<lparr>astNode := Some (length (fst a))\<rparr>)"
        and b1: "fst b = fst a @ [(spreadNode (fst a) (astNode ty))\<lparr>directives := Some (ds @ [generateFederationDirective jm])\<rparr>]"
        and b2: "snd b = (if jm ''key'' \<noteq> None then snd a @ [t_name ty] else snd a)"
      from pa have le: "length h \<le> length (fst a)" by (auto simp: prefix_def)
      have key: "t_name ty \<in> entityTypeNames h s" if "jm ''key'' \<noteq> None"
      proof -
        from that argumentMap_key [OF am, of "''key''"] j have "hasKeyArgument h ty"
          by (simp add: hasKeyArgument_def)
        with m obj show ?thesis unfolding entityTypeNames_def by blast
      qed
      have ib: "?I b" using pa na key by (auto simp: b1 b2)
      have rb: "?R a b" by (auto simp: b1 b2)
      have ad: "astDirectives (fst b) (Some (length (fst a))) = Some (ds @ [generateFederationDirective jm])"
        by (simp add: b1 astDirectives_def deref_def)
      have "classified h b ty (ty\<lparr>astNode := Some (length (fst a))\<rparr>)"
        unfolding classified_def using obj j am ds le ad by (auto simp: b2)
      with ib rb r show ?thesis by (simp add: applyMapped_def)
    qed
  next
    fix k ty and a :: "store \<times> string list"
    assume m: "(k, ty) \<in> set (typeMap s)" and c: "isLeafType ty \<or> getTypeMapper s (type_mappers ?m) k = None"
    then have "t_kind ty \<noteq> OBJECT"
      by (auto simp: classifier_leaf [OF d] isLeafType_def split: if_splits)
    then show "?P k ty ty a" by (simp add: classified_def)
  next
    show "?I (h, [])" by simp
  next
    show "?R a c" if "?R a b" "?R b c" for a b c
      using that by (auto intro: prefix_order.trans)
  next
    show "?P k ty ty' b" if "?P k ty ty' a" "?R a b" for k ty ty' a b
      using that classified_stable by blast
  qed simp_all
  then show ?thesis by simp
qed

lemma classifier_returns:
  assumes d: "distinct (map fst (typeMap s))" and v: "validRefs h s" and pa: "parsedArguments h s"
  shows "\<exists>s' names h'. addFederationDirectives s h = Inr ((s', names), h')"
proof -
  let ?m = "\<lparr>type_mappers = Map.empty(OBJECT_TYPE \<mapsto> objectTypeMapper),
             ENUM_VALUE = None, DIRECTIVE = None\<rparr> :: (store \<times> string list) SchemaMapper"
  let ?I = "\<lambda>st :: store \<times> string list. prefix h (fst st)"
  have "\<exists>s' st'. mapSchema s ?m (h, []) = Inr (s', st')"
  proof (rule mapSchema_objects_succeeds [where I = ?I])
    show "getTypeMapper s (type_mappers ?m) k = None" if "(k, ty) \<in> set (typeMap s)" "isLeafType ty" for k ty
      using that by (auto simp: classifier_leaf [OF d] isLeafType_def)
  next
    fix k ty f and a :: "store \<times> string list"
    assume m: "(k, ty) \<in> set (typeMap s)"
      and g: "getTypeMapper s (type_mappers ?m) k = Some f" and a: "?I a"
    from g m have fo: "f = objectTypeMapper" by (auto simp: classifier_leaf [OF d] split: if_splits)
    have valid: "p < length h" if "astNode ty = Some p" for p
      using v m that by (auto simp: validRefs_def)
    note fj = findJoinDirective_valid [OF a valid] and ad = astDirectives_valid [OF a valid]
    show "\<exists>r b. f ty a = Inr (r, b) \<and> ?I b"
    proof (cases "findJoinDirective ty h")
      case None
      with a show ?thesis by (simp add: fo objectTypeMapper_def fj)
    next
      case (Some jd)
      then obtain ds where ds: "astDirectives h (astNode ty) = Some ds"
        by (auto simp: findJoinDirective_def split: option.splits)
      from Some pa m have "None \<notin> set (case arguments jd of None \<Rightarrow> [] | Some as \<Rightarrow> as)"
        by (auto simp: parsedArguments_def joinTypeArguments_def)
      from argumentMap_parsed [OF this] obtain jm where
        "argumentMap (case arguments jd of None \<Rightarrow> [] | Some as \<Rightarrow> as) = Inr jm" by auto
      with Some ds a show ?thesis
        by (simp add: fo objectTypeMapper_def fj ad alloc_def)
    qed
  qed simp_all
  then show ?thesis
    by (auto simp: addFederationDirectives_def split: sum.splits prod.splits)
qed

lemma classifiedE:
  assumes "classified h st ty ty'" and "t_kind ty = OBJECT" and "joinTypeArguments h ty = Some as"
  obtains jm ds p where "argumentMap as = Inr jm" and "astDirectives h (astNode ty) = Some ds"
    and "ty' = ty\<lparr>astNode := Some p\<rparr>" and "length h \<le> p"
    and "astDirectives (fst st) (Some p) = Some (ds @ [generateFederationDirective jm])"
    and "jm ''key'' \<noteq> None \<longrightarrow> t_name ty \<in> set (snd st)"
proof -
  from assms have "\<exists>jm ds p.
             argumentMap as = Inr jm \<and>
             astDirectives h (astNode ty) = Some ds \<and>
             ty' = ty\<lparr>astNode := Some p\<rparr> \<and> length h \<le> p \<and>
             astDirectives (fst st) (Some p) = Some (ds @ [generateFederationDirective jm]) \<and>
             (jm ''key'' \<noteq> None \<longrightarrow> t_name ty \<in> set (snd st))"
    by (simp add: classified_def)
  then show thesis by (elim exE conjE) (rule that)
qed

lemma classifier_names:
  assumes d: "distinct (map fst (typeMap s))" and v: "validRefs h s"
    and run: "addFederationDirectives s h = Inr ((s', names), h')"
  shows "set names = entityTypeNames h s"
proof
  show "set names \<subseteq> entityTypeNames h s"
    using classifier_rel [OF d v run] by simp
next
  show "entityTypeNames h s \<subseteq> set names"
  proof
    fix n assume "n \<in> entityTypeNames h s"
    then obtain k ty where m: "(k, ty) \<in> set (typeMap s)" and obj: "t_kind ty = OBJECT"
      and key: "hasKeyArgument h ty" and n: "n = t_name ty"
      by (auto simp: entityTypeNames_def)
    from classifier_rel [OF d v run]
    have "list_all2 (\<lambda>(k, ty) (k', ty'). k' = k \<and> classified h (h', names) ty ty') (typeMap s) (typeMap s')"
      by simp
    from list_all2_member [OF this m] obtain ty' where c: "classified h (h', names) ty ty'" by auto
    from key obtain as where as: "joinTypeArguments h ty = Some as"
      by (auto simp: hasKeyArgument_def split: option.splits)
    with c obj obtain jm where am: "argumentMap as = Inr jm"
      and reg: "jm ''key'' \<noteq> None \<longrightarrow> t_name ty \<in> set names"
      by (auto simp: classified_def)
    from argumentMap_key [OF am, of "''key''"] key as have "jm ''key'' \<noteq> None"
      by (simp add: hasKeyArgument_def)
    with reg n show "n \<in> set names" by simp
  qed
qed

subsection \<open>The entity names through the pipeline\<close>

lemma classified_shape:
  assumes "classified h st ty ty'"
  shows "t_kind ty' = t_kind ty \<and> t_name ty' = t_name ty"
proof (cases "t_kind ty = OBJECT \<and> joinTypeArguments h ty \<noteq> None")
  case True
  then obtain as where "t_kind ty = OBJECT" "joinTypeArguments h ty = Some as" by auto
  with assms obtain p where "ty' = ty\<lparr>astNode := Some p\<rparr>" by (rule classifiedE)
  then show ?thesis by simp
next
  case False
  with assms show ?thesis by (simp add: classified_def)
qed

lemma objectAt_rel:
  assumes rel: "list_all2 (\<lambda>(k, ty) (k', ty'). k' = k \<and> P k ty ty') tm tm'"
    and shape: "\<And>k ty ty'. P k ty ty' \<Longrightarrow> t_kind ty' = t_kind ty \<and> t_name ty' = t_name ty"
    and o: "objectAt tm k"
  shows "objectAt tm' k"
proof -
  from o obtain ty where m: "map_of tm k = Some ty" and "t_kind ty = OBJECT" "t_name ty = k"
    by (auto simp: objectAt_def)
  moreover from list_all2_map_of(3) [OF rel m] obtain ty' where "map_of tm' k = Some ty'" "P k ty ty'"
    by auto
  ultimately show ?thesis using shape [of k ty ty'] by (auto simp: objectAt_def)
qed

lemma map_of_eliminated:
  assumes "map_of (typeMap s) k = Some ty" and "\<not> isJoinType ty"
  shows "map_of (typeMap (eliminated s)) k = Some (rewireNamedType (eliminatedNames s) ty)"
proof -
  have "map_of (map (\<lambda>(k, ty). (k, rewireNamedType ns ty)) (filter (\<lambda>(k, ty). \<not> isJoinType ty) tm)) k =
      Some (rewireNamedType ns ty)"
    if "map_of tm k = Some ty" for tm ns
    using that assms(2) by (induction tm) (auto split: if_splits)
  with assms(1) show ?thesis by (simp add: typeMap_eliminated)
qed

lemma objectAt_eliminated:
  assumes "objectAt (typeMap s) k"
  shows "objectAt (typeMap (eliminated s)) k"
proof -
  from assms obtain ty where m: "map_of (typeMap s) k = Some ty" and o: "t_kind ty = OBJECT" "t_name ty = k"
    by (auto simp: objectAt_def)
  from o have "\<not> isJoinType ty" by (simp add: isJoinType_def isLeafType_def)
  from map_of_eliminated [OF m this] o show ?thesis by (auto simp: objectAt_def)
qed

lemma hasKeyArgument_valid:
  assumes "prefix h a" and "\<And>p. astNode ty = Some p \<Longrightarrow> p < length h"
  shows "hasKeyArgument a ty = hasKeyArgument h ty"
  using findJoinDirective_valid [OF assms] by (simp add: hasKeyArgument_def joinTypeArguments_def)

lemma entityTypeNames_annotated:
  assumes "validRefs h s"
  shows "entityTypeNames (snd (setFederationSchemaDirective s h)) (fst (setFederationSchemaDirective s h)) =
         entityTypeNames h s"
proof -
  have "hasKeyArgument (snd (setFederationSchemaDirective s h)) ty = hasKeyArgument h ty"
    if m: "(k, ty) \<in> set (typeMap s)" for k ty
  proof (rule hasKeyArgument_valid)
    show "prefix h (snd (setFederationSchemaDirective s h))"
      by (simp add: setFederationSchemaDirective_def alloc_def)
  next
    show "p < length h" if "astNode ty = Some p" for p
      using assms m that by (auto simp: validRefs_def)
  qed
  then show ?thesis
    by (auto simp: entityTypeNames_def setFederationSchemaDirective_def)
qed

lemma entity_names_resolve:
  assumes d: "distinct (map fst (typeMap s))" and v: "validRefs h s"
    and c: "addFederationDirectives s h = Inr ((s2, names), h2)"
    and st: "removeJoinDirectivesUsages s2 h2 = Inr (s3, h3)"
    and sa: "removeFederationDirectivesFromRootObjects s3 h3 = Inr (s4, h4)"
    and el: "removeJoinTypes s4 h4 = Inr (s5, h5)"
    and o: "objectAt (typeMap s) k"
  shows "objectAt (typeMap s5) k"
proof -
  from classifier_rel [OF d v c]
  have r2: "list_all2 (\<lambda>(k, ty) (k', ty'). k' = k \<and> classified h (h2, names) ty ty') (typeMap s) (typeMap s2)"
    by simp
  have o2: "objectAt (typeMap s2) k"
    by (rule objectAt_rel [OF r2 _ o]) (rule classified_shape)
  have d2: "distinct (map fst (typeMap s2))"
    using list_all2_map_of(1) [OF r2] d by simp
  from st have t3: "typeMap s3 = typeMap s2"
    by (auto simp: removeJoinDirectivesUsages_eq)
  from sanitizer_rel [OF d2 [folded t3], of h3] sa
  obtain P where r4: "list_all2 (\<lambda>(k, ty) (k', ty'). k' = k \<and> P k ty ty') (typeMap s3) (typeMap s4)"
    and shape: "\<And>k ty ty'. P k ty ty' \<Longrightarrow> t_kind ty' = t_kind ty \<and> t_name ty' = t_name ty"
  proof -
    let ?P = "\<lambda>k ty ty'. if isRootObject s3 k
                then \<exists>p. ty' = ty\<lparr>astNode := Some p\<rparr> \<and> length h3 \<le> p \<and> astDirectives h4 (Some p) = Some []
                else ty' = ty"
    assume that: "\<And>P. list_all2 (\<lambda>(k, ty) (k', ty'). k' = k \<and> P k ty ty') (typeMap s3) (typeMap s4) \<Longrightarrow>
       (\<And>k ty ty'. P k ty ty' \<Longrightarrow> t_kind ty' = t_kind ty \<and> t_name ty' = t_name ty) \<Longrightarrow> thesis"
    from sanitizer_rel [OF d2 [folded t3], of h3] sa
    have "list_all2 (\<lambda>(k, ty) (k', ty'). k' = k \<and> ?P k ty ty') (typeMap s3) (typeMap s4)" by auto
    moreover have "t_kind ty' = t_kind ty \<and> t_name ty' = t_name ty" if "?P k ty ty'" for k ty ty'
      using that by (cases "isRootObject s3 k") auto
    ultimately show thesis by (rule that)
  qed
  have o4: "objectAt (typeMap s4) k"
    by (rule objectAt_rel [OF r4 shape]) (simp_all add: t3 o2)
  have d4: "distinct (map fst (typeMap s4))"
    using list_all2_map_of(1) [OF r4] d2 t3 by simp
  from el have "s5 = eliminated s4" by (simp add: removeJoinTypes_eq [OF d4])
  with objectAt_eliminated [OF o4] show ?thesis by simp
qed

lemma entityTypeNames_list:
  "entityTypeNames h s =
     set (map (\<lambda>(k, ty). t_name ty)
            (filter (\<lambda>(k, ty). t_kind ty = OBJECT \<and> hasKeyArgument h ty) (typeMap s)))"
  unfolding entityTypeNames_def by force

subsection \<open>The scaffold\<close>

text \<open>
  Claim C7. Whenever \<open>normalizeSchema\<close> returns, the query type of the result has a field
  \<open>_entities\<close> of type \<open>[_Entity]!\<close> with exactly one argument, \<open>representations\<close>, of
  type \<open>[_Any!]!\<close>.
\<close>

theorem entities_field_shape:
  assumes "normalizeSchema s h = Inr (r, h')"
  shows "\<exists>q query f. queryType r = Some q \<and> getType r q = Some query \<and>
           map_of (t_fields query) ''_entities'' = Some f \<and>
           f_type f = GraphQLNonNull (GraphQLList (Named ''_Entity'')) \<and>
           map (\<lambda>a. (a_name a, a_type a)) (f_args f) =
             [(''representations'', GraphQLNonNull (GraphQLList (GraphQLNonNull (Named ''_Any''))))]"
proof -
  from assms obtain rs names w where
    w: "addEntitiesQueryToSchema
             (setType (setType (setType rs ''_Any'' (GraphQLScalarType ''_Any''))
                         ''FieldSet'' (GraphQLScalarType ''FieldSet''))
                ''_Entity'' (entityUnionOf rs names))
             (entityUnionOf rs names) (GraphQLScalarType ''_Any'') = Inr w"
    and r: "r = addFederationDirectivesToSchema w (GraphQLScalarType ''FieldSet'')"
    by (auto simp: normalizeSchema_def split: sum.splits prod.splits)
  from w obtain q query where q: "queryType w = Some q"
    and g: "getType w q = Some (query\<lparr>t_fields := AList.update ''_entities''
          (entitiesField (entityUnionOf rs names) (GraphQLScalarType ''_Any'')) (t_fields query)\<rparr>)"
    by (auto simp: addEntitiesQueryToSchema_def setType_def getType_def map_of_update split: option.splits)
  show ?thesis using q g r
    by (simp add: addFederationDirectivesToSchema_def getType_def map_of_update entitiesField_def
          entityUnionOf_def GraphQLUnionType_def GraphQLScalarType_def)
qed

theorem entities_field_shape_witness:
  "\<exists>r h'. normalizeSchema smallSchema exStore = Inr (r, h') \<and>
     (\<exists>q query f. queryType r = Some q \<and> getType r q = Some query \<and>
           map_of (t_fields query) ''_entities'' = Some f \<and>
           f_type f = GraphQLNonNull (GraphQLList (Named ''_Entity'')) \<and>
           map (\<lambda>a. (a_name a, a_type a)) (f_args f) =
             [(''representations'', GraphQLNonNull (GraphQLList (GraphQLNonNull (Named ''_Any''))))])"
proof -
  obtain r h' where n: "normalizeSchema smallSchema exStore = Inr (r, h')"
    using small_normalizes by (cases "normalizeSchema smallSchema exStore") auto
  from n entities_field_shape [OF n] show ?thesis
    by - (rule exI, rule exI, rule conjI, assumption+)
qed



subsection \<open>Failure reporting\<close>

text \<open>
  Claim C8. An Error thrown by loading, by the pipeline, by printing or by writing ends
  the run with a failure report carrying its message. When composition returns errors,
  the message is that of all composition errors joined by line breaks, and the report is
  the only event of the run: the pipeline is not entered and nothing is written.
\<close>

theorem run_reports_error:
  "(loadSchema env (getInput env ''schema'') = Inl (Error msg) \<longrightarrow> run env = [SetFailed msg]) \<and>
   (loadSchema env (getInput env ''schema'') = Inr (s, h) \<and> normalizeSchema s h = Inl (Error msg)
      \<longrightarrow> run env = [NormalizeSchema, SetFailed msg]) \<and>
   (loadSchema env (getInput env ''schema'') = Inr (s, h) \<and> normalizeSchema s h = Inr (r, h') \<and>
    printSchemaWithDirectives env r h' = Inl (Error msg)
      \<longrightarrow> run env = [NormalizeSchema, SetFailed msg]) \<and>
   (loadSchema env (getInput env ''schema'') = Inr (s, h) \<and> normalizeSchema s h = Inr (r, h') \<and>
    printSchemaWithDirectives env r h' = Inr text \<and>
    writeFileSync env (getInput env ''target'') text = Inl (Error msg)
      \<longrightarrow> run env = [NormalizeSchema, SetFailed msg]) \<and>
   (readFileSync env (getInput env ''schema'') = Inr src \<and> parse env src = Inr doc \<and>
    composeServices env doc = Inr compositionResult \<and> errors compositionResult = Some errs
      \<longrightarrow> loadSchema env (getInput env ''schema'') = Inl (Error (join errs [CHR 0x0A])) \<and>
          run env = [SetFailed (join errs [CHR 0x0A])])"
  by (simp add: run_def tryBlock_def loadSchema_def)

theorem run_reports_error_witness:
  "readFileSync failingEnv (getInput failingEnv ''schema'') = Inr ''type Query'' \<and>
   parse failingEnv ''type Query'' = Inr () \<and>
   composeServices failingEnv () =
     Inr \<lparr>errors = Some [''no query'', ''bad key''], toGraphQLJSSchema = Inl (Error ''schema is undefined'')\<rparr> \<and>
   run failingEnv = [SetFailed (''no query'' @ [CHR 0x0A] @ ''bad key'')]"
  using run_reports_error [of failingEnv _ _ _ _ _ _ "''type Query''" "()"
      "\<lparr>errors = Some [''no query'', ''bad key''], toGraphQLJSSchema = Inl (Error ''schema is undefined'')\<rparr>"
      "[''no query'', ''bad key'']"]
  by (simp add: failingEnv_def)

subsection \<open>Stripping\<close>

text \<open>
  Claim C4. The stripper always returns. In the store it returns, no node of a type of
  the returned document and no node of a value of one of its enum types carries a usage
  whose name starts with \<open>join__\<close>, and at every node the usages with other names are
  the same list, in the same order and with the same arguments, as before; the type
  mapping and the directive definitions are the ones it was given.
\<close>

theorem stripper_removes_join_usages:
  assumes "distinct (map fst (typeMap s))"
  shows "\<exists>s' h'. removeJoinDirectivesUsages s h = Inr (s', h') \<and>
           typeMap s' = typeMap s \<and> s_directives s' = s_directives s \<and>
           (\<forall>(k, ty) \<in> set (typeMap s').
              (\<forall>ds. astDirectives h' (astNode ty) = Some ds \<longrightarrow>
                 (\<forall>d \<in> set ds. \<not> startsWith (dir_name d) ''join__'')) \<and>
              (t_kind ty = ENUM \<longrightarrow>
                 (\<forall>v \<in> set (t_values ty). \<forall>ds. astDirectives h' (ev_astNode v) = Some ds \<longrightarrow>
                    (\<forall>d \<in> set ds. \<not> startsWith (dir_name d) ''join__'')))) \<and>
           (\<forall>a. map_option (filter (\<lambda>d. \<not> startsWith (dir_name d) ''join__'')) (astDirectives h' a) =
                map_option (filter (\<lambda>d. \<not> startsWith (dir_name d) ''join__'')) (astDirectives h a))"
proof -
  let ?h' = "fold removeJoinDirectives (strippedNodes s) h"
  have keep: "(\<lambda>d. \<not> startsWith (dir_name d) ''join__'') = keepUsage"
    by (simp add: keepUsage_def fun_eq_iff)
  have clean: "\<forall>d \<in> set ds. keepUsage d"
    if "a \<in> set (strippedNodes s)" and "astDirectives ?h' a = Some ds" for a ds
    using that by (auto simp: astDirectives_stripped)
  have same: "map_option (filter keepUsage) (astDirectives ?h' a) =
      map_option (filter keepUsage) (astDirectives h a)" for a
    by (cases "astDirectives h a") (simp_all add: astDirectives_stripped)
  have types: "\<forall>(k, ty) \<in> set (typeMap s).
              (\<forall>ds. astDirectives ?h' (astNode ty) = Some ds \<longrightarrow> (\<forall>d \<in> set ds. keepUsage d)) \<and>
              (t_kind ty = ENUM \<longrightarrow>
                 (\<forall>v \<in> set (t_values ty). \<forall>ds. astDirectives ?h' (ev_astNode v) = Some ds \<longrightarrow>
                    (\<forall>d \<in> set ds. keepUsage d)))"
    using clean types_stripped enum_values_stripped [OF assms] by blast
  show ?thesis
    unfolding removeJoinDirectivesUsages_eq keep
    using types same by (simp add: rebuilt_def)
qed

theorem stripper_removes_join_usages_witness:
  "distinct (map fst (typeMap exSchema)) \<and>
   (\<exists>s' h'. removeJoinDirectivesUsages exSchema exStore = Inr (s', h') \<and>
           typeMap s' = typeMap exSchema \<and> s_directives s' = s_directives exSchema \<and>
           (\<forall>(k, ty) \<in> set (typeMap s').
              (\<forall>ds. astDirectives h' (astNode ty) = Some ds \<longrightarrow>
                 (\<forall>d \<in> set ds. \<not> startsWith (dir_name d) ''join__'')) \<and>
              (t_kind ty = ENUM \<longrightarrow>
                 (\<forall>v \<in> set (t_values ty). \<forall>ds. astDirectives h' (ev_astNode v) = Some ds \<longrightarrow>
                    (\<forall>d \<in> set ds. \<not> startsWith (dir_name d) ''join__'')))) \<and>
           (\<forall>a. map_option (filter (\<lambda>d. \<not> startsWith (dir_name d) ''join__'')) (astDirectives h' a) =
                map_option (filter (\<lambda>d. \<not> startsWith (dir_name d) ''join__'')) (astDirectives exStore a)))"
proof -
  have d: "distinct (map fst (typeMap exSchema))" by (simp add: exSchema_def)
  from d stripper_removes_join_usages [OF d, of exStore] show ?thesis by (rule conjI)
qed

subsection \<open>Pruning twice\<close>



text \<open>
  Claim C5. The root sanitizer always returns. A root operation type of the schema it is
  given (its name leads to an object type) is a root operation type of the result, and
  every root operation type of the result has an AST node with an empty directive list,
  whatever the store held before. An entry of the type mapping that is not a root
  operation type is the same in the result, under the same key, and every node of the
  store it was given is unchanged.
\<close>

theorem root_types_carry_no_directives:
  assumes "distinct (map fst (typeMap s))"
  shows "\<exists>s' h'. removeFederationDirectivesFromRootObjects s h = Inr (s', h') \<and>
           (\<forall>q. kindByName s q = Some OBJECT \<longrightarrow>
              (queryType s = Some q \<longrightarrow> queryType s' = Some q) \<and>
              (mutationType s = Some q \<longrightarrow> mutationType s' = Some q) \<and>
              (subscriptionType s = Some q \<longrightarrow> subscriptionType s' = Some q)) \<and>
           (\<forall>q. queryType s' = Some q \<or> mutationType s' = Some q \<or> subscriptionType s' = Some q \<longrightarrow>
              (\<exists>ty. getType s' q = Some ty \<and> astDirectives h' (astNode ty) = Some [])) \<and>
           map fst (typeMap s') = map fst (typeMap s) \<and>
           (\<forall>k ty. (k, ty) \<in> set (typeMap s) \<and> \<not> isRootObject s k \<longrightarrow> getType s' k = Some ty) \<and>
           prefix h h' \<and> s_directives s' = s_directives s"
proof -
  let ?P = "\<lambda>s' h' k ty ty'. if isRootObject s k
                then \<exists>p. ty' = ty\<lparr>astNode := Some p\<rparr> \<and> length h \<le> p \<and> astDirectives h' (Some p) = Some []
                else ty' = ty"
  from sanitizer_rel [OF assms, of h] obtain s' h' where
    run: "removeFederationDirectivesFromRootObjects s h = Inr (s', h')" and pre: "prefix h h'"
    and s': "s' = rebuilt s (typeMap s') (s_directives s)"
    and rel: "list_all2 (\<lambda>(k, ty) (k', ty'). k' = k \<and> ?P s' h' k ty ty') (typeMap s) (typeMap s')"
    by blast
  note mo = list_all2_map_of [OF rel]
  have kind: "kindByName s' = kindByName s"
  proof
    fix k show "kindByName s' k = kindByName s k"
    proof (cases "map_of (typeMap s) k")
      case None
      then have "map_of (typeMap s') k = None"
        using mo(2) [of k] by (cases "map_of (typeMap s') k") auto
      with None show ?thesis by (simp add: kindByName_def getType_def)
    next
      case (Some ty)
      from mo(3) [OF Some] obtain ty' where "map_of (typeMap s') k = Some ty'" "t_kind ty' = t_kind ty"
        by (auto split: if_splits)
      with Some show ?thesis by (simp add: kindByName_def getType_def)
    qed
  qed
  have keep: "getObjectTypeFromTypeMap (typeMap s') r = Some q \<longleftrightarrow> r = Some q \<and> kindByName s q = Some OBJECT" for r q
    unfolding kind [symmetric]
    by (auto simp: getObjectTypeFromTypeMap_def kindByName_def getType_def split: option.splits)
  have roots: "queryType s' = Some q \<longleftrightarrow> queryType s = Some q \<and> kindByName s q = Some OBJECT"
    "mutationType s' = Some q \<longleftrightarrow> mutationType s = Some q \<and> kindByName s q = Some OBJECT"
    "subscriptionType s' = Some q \<longleftrightarrow> subscriptionType s = Some q \<and> kindByName s q = Some OBJECT" for q
    by (subst s', simp add: rebuilt_def keep)+
  have empty: "\<exists>ty. getType s' q = Some ty \<and> astDirectives h' (astNode ty) = Some []"
    if "queryType s' = Some q \<or> mutationType s' = Some q \<or> subscriptionType s' = Some q" for q
  proof -
    from that roots have r: "isRootObject s q" by (auto simp: isRootObject_def)
    then obtain ty where "map_of (typeMap s) q = Some ty"
      by (auto simp: isRootObject_def kindByName_def getType_def)
    from mo(3) [OF this] r show ?thesis by (auto simp: getType_def)
  qed
  have others: "getType s' k = Some ty" if "(k, ty) \<in> set (typeMap s)" "\<not> isRootObject s k" for k ty
  proof -
    from assms that(1) have "map_of (typeMap s) k = Some ty" by simp
    from mo(3) [OF this] that(2) show ?thesis by (simp add: getType_def)
  qed
  have "s_directives s' = s_directives s" by (subst s') simp
  with run roots empty others mo(1) pre show ?thesis by blast
qed

theorem root_types_carry_no_directives_witness:
  "distinct (map fst (typeMap exSchema)) \<and>
   (\<exists>s' h'. removeFederationDirectivesFromRootObjects exSchema exStore = Inr (s', h') \<and>
           (\<forall>q. kindByName exSchema q = Some OBJECT \<longrightarrow>
              (queryType exSchema = Some q \<longrightarrow> queryType s' = Some q) \<and>
              (mutationType exSchema = Some q \<longrightarrow> mutationType s' = Some q) \<and>
              (subscriptionType exSchema = Some q \<longrightarrow> subscriptionType s' = Some q)) \<and>
           (\<forall>q. queryType s' = Some q \<or> mutationType s' = Some q \<or> subscriptionType s' = Some q \<longrightarrow>
              (\<exists>ty. getType s' q = Some ty \<and> astDirectives h' (astNode ty) = Some [])) \<and>
           map fst (typeMap s') = map fst (typeMap exSchema) \<and>
           (\<forall>k ty. (k, ty) \<in> set (typeMap exSchema) \<and> \<not> isRootObject exSchema k \<longrightarrow> getType s' k = Some ty) \<and>
           prefix exStore h' \<and> s_directives s' = s_directives exSchema) \<and>
   kindByName exSchema ''Query'' = Some OBJECT \<and> queryType exSchema = Some ''Query'' \<and>
   astDirectives exStore (Some 1) = Some [joinType [graphArg]] \<and>
   \<not> isRootObject exSchema ''Product''"
proof -
  have d: "distinct (map fst (typeMap exSchema))" by (simp add: exSchema_def)
  have e: "kindByName exSchema ''Query'' = Some OBJECT \<and> queryType exSchema = Some ''Query'' \<and>
      astDirectives exStore (Some 1) = Some [joinType [graphArg]] \<and> \<not> isRootObject exSchema ''Product''"
    by (simp add: exSchema_def exStore_def kindByName_def getType_def objectType_def astDirectives_def
          deref_def isRootObject_def)
  from d root_types_carry_no_directives [OF d, of exStore] e show ?thesis by blast
qed

subsection \<open>Classification\<close>

text \<open>
  Claim C3. For a schema as graphql-js builds it from a parsed document, the classifier
  returns. An object type whose first \<open>join__type\<close> usage has no argument named \<open>key\<close>
  gets a new AST node whose directive list is the old list followed by one usage
  \<open>shareable\<close> without arguments; the type is otherwise the same, and its name is not
  among the recorded entity names.
\<close>

theorem shareable_fallback:
  assumes "distinct (map fst (typeMap s))" and "keysAreNames s" and "validRefs h s"
    and "parsedArguments h s"
    and "(k, ty) \<in> set (typeMap s)" and "t_kind ty = OBJECT"
    and "joinTypeArguments h ty = Some as" and "\<not> hasKeyArgument h ty"
  shows "\<exists>s' entityNames h' p ds.
           addFederationDirectives s h = Inr ((s', entityNames), h') \<and>
           getType s' k = Some (ty\<lparr>astNode := Some p\<rparr>) \<and>
           astDirectives h (astNode ty) = Some ds \<and>
           astDirectives h' (Some p) = Some (ds @ [\<lparr>dir_name = ''shareable'', arguments = None\<rparr>]) \<and>
           t_name ty \<notin> set entityNames"
proof -
  from classifier_returns [OF assms(1,3,4)] obtain s' names h' where
    run: "addFederationDirectives s h = Inr ((s', names), h')" by auto
  from classifier_rel [OF assms(1,3) run]
  have rel: "list_all2 (\<lambda>(k, ty) (k', ty'). k' = k \<and> classified h (h', names) ty ty') (typeMap s) (typeMap s')"
    by simp
  from assms(1,5) have "map_of (typeMap s) k = Some ty" by simp
  from list_all2_map_of(3) [OF rel this] obtain ty' where
    g: "getType s' k = Some ty'" and c: "classified h (h', names) ty ty'"
    by (auto simp: getType_def)
  from c assms(6,7) obtain jm ds p where am: "argumentMap as = Inr jm"
    and ds: "astDirectives h (astNode ty) = Some ds" and ty': "ty' = ty\<lparr>astNode := Some p\<rparr>"
    and ad: "astDirectives h' (Some p) = Some (ds @ [generateFederationDirective jm])"
    by (rule classifiedE) simp
  from argumentMap_key [OF am, of "''key''"] assms(7,8) have "jm ''key'' = None"
    by (simp add: hasKeyArgument_def)
  then have gen: "generateFederationDirective jm = \<lparr>dir_name = ''shareable'', arguments = None\<rparr>"
    by (simp add: generateFederationDirective_def)
  have nn: "t_name ty \<notin> set names"
  proof
    assume "t_name ty \<in> set names"
    then have "t_name ty \<in> entityTypeNames h s"
      using classifier_names [OF assms(1,3) run] by simp
    then obtain k2 ty2 where m2: "(k2, ty2) \<in> set (typeMap s)" and key: "hasKeyArgument h ty2"
      and n: "t_name ty2 = t_name ty" by (auto simp: entityTypeNames_def)
    have "t_name ty2 = k2" using assms(2) m2 by (auto simp: keysAreNames_def)
    moreover have "t_name ty = k" using assms(2,5) by (auto simp: keysAreNames_def)
    ultimately have "k2 = k" using n by simp
    with m2 have "map_of (typeMap s) k = Some ty2" using assms(1) by simp
    moreover have "map_of (typeMap s) k = Some ty" using assms(1,5) by simp
    ultimately have "ty2 = ty" by simp
    with key assms(8) show False by simp
  qed
  have "addFederationDirectives s h = Inr ((s', names), h') \<and>
           getType s' k = Some (ty\<lparr>astNode := Some p\<rparr>) \<and>
           astDirectives h (astNode ty) = Some ds \<and>
           astDirectives h' (Some p) = Some (ds @ [\<lparr>dir_name = ''shareable'', arguments = None\<rparr>]) \<and>
           t_name ty \<notin> set names"
    using run g ty' ds ad gen nn by simp
  then show ?thesis by - ((rule exI)+, assumption)
qed

theorem shareable_fallback_witness:
  "distinct (map fst (typeMap exSchema)) \<and> keysAreNames exSchema \<and> validRefs exStore exSchema \<and>
   parsedArguments exStore exSchema \<and>
   (''Money'', objectType ''Money'' 3 []) \<in> set (typeMap exSchema) \<and>
   t_kind (objectType ''Money'' 3 []) = OBJECT \<and>
   joinTypeArguments exStore (objectType ''Money'' 3 []) = Some [Some graphArg] \<and>
   \<not> hasKeyArgument exStore (objectType ''Money'' 3 []) \<and>
   (\<exists>s' entityNames h' p ds.
           addFederationDirectives exSchema exStore = Inr ((s', entityNames), h') \<and>
           getType s' ''Money'' = Some ((objectType ''Money'' 3 [])\<lparr>astNode := Some p\<rparr>) \<and>
           astDirectives exStore (astNode (objectType ''Money'' 3 [])) = Some ds \<and>
           astDirectives h' (Some p) = Some (ds @ [\<lparr>dir_name = ''shareable'', arguments = None\<rparr>]) \<and>
           t_name (objectType ''Money'' 3 []) \<notin> set entityNames)"
proof -
  have 1: "distinct (map fst (typeMap exSchema))" by (simp add: exSchema_def)
  have 2: "keysAreNames exSchema" by (simp add: keysAreNames_def exSchema_def objectType_def)
  have 3: "validRefs exStore exSchema" by (simp add: validRefs_def exSchema_def exStore_def objectType_def)
  have 4: "parsedArguments exStore exSchema"
    by (simp add: parsedArguments_def joinTypeArguments_def findJoinDirective_def astDirectives_def deref_def
          exSchema_def exStore_def objectType_def joinType_def)
  have 5: "(''Money'', objectType ''Money'' 3 []) \<in> set (typeMap exSchema)" by (simp add: exSchema_def)
  have 6: "t_kind (objectType ''Money'' 3 []) = OBJECT" by (simp add: objectType_def)
  have 7: "joinTypeArguments exStore (objectType ''Money'' 3 []) = Some [Some graphArg]"
    by (simp add: joinTypeArguments_def findJoinDirective_def astDirectives_def deref_def
          exStore_def objectType_def joinType_def)
  have 8: "\<not> hasKeyArgument exStore (objectType ''Money'' 3 [])"
    by (simp add: hasKeyArgument_def 7 graphArg_def)
  note 9 = shareable_fallback [OF 1 2 3 4 5 6 7 8]
  from 1 2 3 4 5 6 7 8 9 show ?thesis by (intro conjI) assumption+
qed

text \<open>
  The part of claim C2 that holds for every such schema: an object type with an argument
  \<open>key\<close> on its first \<open>join__type\<close> usage gets a usage \<open>key\<close> appended whose argument
  array has two slots, what the argument map holds for \<open>key\<close> and for \<open>resolvable\<close>, and
  its name is recorded.
\<close>

lemma key_usage_emitted:
  assumes "distinct (map fst (typeMap s))" and "validRefs h s" and "parsedArguments h s"
    and "(k, ty) \<in> set (typeMap s)" and "t_kind ty = OBJECT"
    and "joinTypeArguments h ty = Some as" and "hasKeyArgument h ty"
  shows "\<exists>s' entityNames h' p ds jm.
           addFederationDirectives s h = Inr ((s', entityNames), h') \<and>
           argumentMap as = Inr jm \<and> jm ''key'' \<noteq> None \<and>
           getType s' k = Some (ty\<lparr>astNode := Some p\<rparr>) \<and>
           astDirectives h (astNode ty) = Some ds \<and>
           astDirectives h' (Some p) =
             Some (ds @ [\<lparr>dir_name = ''key'', arguments = Some [jm ''key'', jm ''resolvable'']\<rparr>]) \<and>
           t_name ty \<in> set entityNames"
proof -
  from classifier_returns [OF assms(1,2,3)] obtain s' names h' where
    run: "addFederationDirectives s h = Inr ((s', names), h')" by auto
  from classifier_rel [OF assms(1,2) run]
  have rel: "list_all2 (\<lambda>(k, ty) (k', ty'). k' = k \<and> classified h (h', names) ty ty') (typeMap s) (typeMap s')"
    by simp
  from assms(1,4) have "map_of (typeMap s) k = Some ty" by simp
  from list_all2_map_of(3) [OF rel this] obtain ty' where
    g: "getType s' k = Some ty'" and c: "classified h (h', names) ty ty'"
    by (auto simp: getType_def)
  from c assms(5,6) obtain jm ds p where am: "argumentMap as = Inr jm"
    and ds: "astDirectives h (astNode ty) = Some ds" and ty': "ty' = ty\<lparr>astNode := Some p\<rparr>"
    and ad: "astDirectives (fst (h', names)) (Some p) = Some (ds @ [generateFederationDirective jm])"
    and reg: "jm ''key'' \<noteq> None \<longrightarrow> t_name ty \<in> set (snd (h', names))"
    by (rule classifiedE)
  from argumentMap_key [OF am, of "''key''"] assms(6,7) have key: "jm ''key'' \<noteq> None"
    by (simp add: hasKeyArgument_def)
  then have gen: "generateFederationDirective jm =
      \<lparr>dir_name = ''key'', arguments = Some [jm ''key'', jm ''resolvable'']\<rparr>"
    by (simp add: generateFederationDirective_def)
  have "addFederationDirectives s h = Inr ((s', names), h') \<and>
           argumentMap as = Inr jm \<and> jm ''key'' \<noteq> None \<and>
           getType s' k = Some (ty\<lparr>astNode := Some p\<rparr>) \<and>
           astDirectives h (astNode ty) = Some ds \<and>
           astDirectives h' (Some p) =
             Some (ds @ [\<lparr>dir_name = ''key'', arguments = Some [jm ''key'', jm ''resolvable'']\<rparr>]) \<and>
           t_name ty \<in> set names"
    using run am key g ty' ds ad gen reg by simp
  then show ?thesis by - ((rule exI)+, assumption)
qed

text \<open>
  Claim C2, at the type \<open>Product\<close>, whose first \<open>join__type\<close> has the arguments \<open>graph\<close>
  and \<open>key\<close> and no \<open>resolvable\<close>: the emitted \<open>key\<close> usage has two argument slots, the
  \<open>key\<close> argument and an undefined one.
\<close>

theorem key_directive_undefined_slot:
  "(case addFederationDirectives exSchema exStore of
      Inl e \<Rightarrow> False
    | Inr ((s', entityNames), h') \<Rightarrow>
        (case getType s' ''Product'' of
           None \<Rightarrow> False
         | Some ty \<Rightarrow>
             astDirectives h' (astNode ty) =
               Some [joinType [graphArg, keyArg], \<lparr>dir_name = ''tag'', arguments = Some []\<rparr>,
                     \<lparr>dir_name = ''key'', arguments = Some [Some keyArg, None]\<rparr>]))"
  by code_simp

subsection \<open>The entity union\<close>

text \<open>
  Claim C1. For a schema as graphql-js builds it (one entry per key, keyed by type name,
  AST references into the store), whenever \<open>normalizeSchema\<close> returns, the type
  \<open>_Entity\<close> of the result is a union whose members are exactly the names of the object
  types with an argument \<open>key\<close> on their first \<open>join__type\<close> usage.
\<close>

theorem entity_union_members:
  assumes d: "distinct (map fst (typeMap s))" and kn: "keysAreNames s" and v: "validRefs h s"
    and run: "normalizeSchema s h = Inr (r, h')"
  shows "\<exists>u. getType r ''_Entity'' = Some u \<and> t_kind u = UNION \<and>
             set (t_types u) = Some ` entityTypeNames h s"
proof -
  let ?s1 = "fst (setFederationSchemaDirective s h)"
  let ?h1 = "snd (setFederationSchemaDirective s h)"
  have t1: "typeMap ?s1 = typeMap s" by (simp add: setFederationSchemaDirective_def)
  have d1: "distinct (map fst (typeMap ?s1))" using d by (simp add: t1)
  have v1: "validRefs ?h1 ?s1"
    using v by (auto simp: validRefs_def setFederationSchemaDirective_def alloc_def)
  from run obtain s2 names h2 s3 h3 s4 h4 s5 h5 w where
    c: "addFederationDirectives ?s1 ?h1 = Inr ((s2, names), h2)"
    and st: "removeJoinDirectivesUsages s2 h2 = Inr (s3, h3)"
    and sa: "removeFederationDirectivesFromRootObjects s3 h3 = Inr (s4, h4)"
    and el: "removeJoinTypes s4 h4 = Inr (s5, h5)"
    and ae: "addEntitiesQueryToSchema
             (setType (setType (setType s5 ''_Any'' (GraphQLScalarType ''_Any''))
                         ''FieldSet'' (GraphQLScalarType ''FieldSet''))
                ''_Entity'' (entityUnionOf s5 names))
             (entityUnionOf s5 names) (GraphQLScalarType ''_Any'') = Inr w"
    and r: "r = addFederationDirectivesToSchema w (GraphQLScalarType ''FieldSet'')"
    by (auto simp: normalizeSchema_def split: sum.splits prod.splits)
  have names: "set names = entityTypeNames h s"
    using classifier_names [OF d1 v1 c] entityTypeNames_annotated [OF v] by simp
  have res: "map_option t_name (getType s5 n) = Some n" if "n \<in> set names" for n
  proof -
    from that names obtain k ty where m: "(k, ty) \<in> set (typeMap s)" and o: "t_kind ty = OBJECT"
      and n: "n = t_name ty" by (auto simp: entityTypeNames_def)
    from kn m have "t_name ty = k" by (auto simp: keysAreNames_def)
    with d m o n have "objectAt (typeMap ?s1) n" by (simp add: objectAt_def t1)
    from entity_names_resolve [OF d1 v1 c st sa el this] show ?thesis
      by (auto simp: objectAt_def getType_def)
  qed
  then have "map (\<lambda>n. map_option t_name (getType s5 n)) names = map Some names" by simp
  then have members: "t_types (entityUnionOf s5 names) = map Some names"
    by (simp add: entityUnionOf_def GraphQLUnionType_def)
  have kind: "t_kind (entityUnionOf s5 names) = UNION"
    by (simp add: entityUnionOf_def GraphQLUnionType_def)
  let ?X = "setType (setType (setType s5 ''_Any'' (GraphQLScalarType ''_Any''))
                         ''FieldSet'' (GraphQLScalarType ''FieldSet''))
                ''_Entity'' (entityUnionOf s5 names)"
  have gx: "getType ?X ''_Entity'' = Some (entityUnionOf s5 names)"
    by (simp add: setType_def getType_def map_of_update)
  from ae obtain q query where q: "getType ?X q = Some query"
    and w: "w = setType ?X q (query\<lparr>t_fields := AList.update ''_entities''
          (entitiesField (entityUnionOf s5 names) (GraphQLScalarType ''_Any'')) (t_fields query)\<rparr>)"
    by (auto simp: addEntitiesQueryToSchema_def split: option.splits)
  have "\<exists>u. getType w ''_Entity'' = Some u \<and> t_kind u = t_kind (entityUnionOf s5 names) \<and>
            t_types u = t_types (entityUnionOf s5 names)"
  proof (cases "q = ''_Entity''")
    case True
    with q gx have "query = entityUnionOf s5 names" by simp
    with True w show ?thesis by (simp add: setType_def getType_def map_of_update)
  next
    case False
    with w gx show ?thesis by (simp add: setType_def getType_def map_of_update)
  qed
  then obtain u where "getType w ''_Entity'' = Some u" "t_kind u = UNION" "t_types u = map Some names"
    using kind members by auto
  with r names have "getType r ''_Entity'' = Some u \<and> t_kind u = UNION \<and>
             set (t_types u) = Some ` entityTypeNames h s"
    by (simp add: addFederationDirectivesToSchema_def getType_def)
  then show ?thesis by (rule exI)
qed

theorem entity_union_members_witness:
  "distinct (map fst (typeMap smallSchema)) \<and> keysAreNames smallSchema \<and> validRefs exStore smallSchema \<and>
   (\<exists>r h'. normalizeSchema smallSchema exStore = Inr (r, h') \<and>
      (\<exists>u. getType r ''_Entity'' = Some u \<and> t_kind u = UNION \<and>
             set (t_types u) = Some ` entityTypeNames exStore smallSchema)) \<and>
   entityTypeNames exStore smallSchema = {''Product''}"
proof -
  have 1: "distinct (map fst (typeMap smallSchema))" by (simp add: smallSchema_def exSchema_def)
  have 2: "keysAreNames smallSchema" by (simp add: keysAreNames_def smallSchema_def exSchema_def objectType_def)
  have 3: "validRefs exStore smallSchema"
    by (simp add: validRefs_def smallSchema_def exSchema_def exStore_def objectType_def)
  obtain r h' where n: "normalizeSchema smallSchema exStore = Inr (r, h')"
    using small_normalizes by (cases "normalizeSchema smallSchema exStore") auto
  note 4 = entity_union_members [OF 1 2 3 n]
  have 5: "entityTypeNames exStore smallSchema = {''Product''}"
    by (simp add: entityTypeNames_list hasKeyArgument_def joinTypeArguments_def findJoinDirective_def
         astDirectives_def deref_def smallSchema_def exSchema_def exStore_def objectType_def joinType_def
         graphArg_def keyArg_def)
  from n 4 have "\<exists>r h'. normalizeSchema smallSchema exStore = Inr (r, h') \<and>
      (\<exists>u. getType r ''_Entity'' = Some u \<and> t_kind u = UNION \<and>
             set (t_types u) = Some ` entityTypeNames exStore smallSchema)"
    by - (rule exI, rule exI, rule conjI, assumption+)
  with 1 2 3 5 show ?thesis by (intro conjI) assumption+
qed

subsection \<open>In place or rebuilt\<close>





end
